theory Spec2Isabelle
  imports Main "HOL-Library.AList" "HOL-Library.Sublist" "HOL-Library.Char_ord" "HOL-Library.List_Lexorder"
    "HOL-Library.Option_ord"
begin

section \<open>Python strings\<close>

text \<open>
  Python \<open>str\<close> values are modelled as \<open>string\<close>; a \<open>char\<close> stands for a code point
  below 256, so the pilcrow sign U+00B6 is \<open>CHR 0xB6\<close>, the newline is \<open>CHR 0x0A\<close> and the
  backslash is \<open>CHR 0x5C\<close>. A string is truthy in Python exactly when it is not empty.
\<close>

definition isspace :: "char \<Rightarrow> bool" where
  \<comment> \<open>the code points below 256 for which \<open>str.isspace\<close> holds\<close>
  "isspace c = ((of_char c :: nat) \<in> set [9, 10, 11, 12, 13, 28, 29, 30, 31, 32, 133, 160])"

definition lstrip :: "string \<Rightarrow> string" where
  "lstrip s = dropWhile isspace s"

definition rstrip :: "string \<Rightarrow> string" where
  "rstrip s = rev (dropWhile isspace (rev s))"

definition strip :: "string \<Rightarrow> string" where
  \<comment> \<open>\<open>s.strip()\<close>\<close>
  "strip s = lstrip (rstrip s)"

definition rstrip_chars :: "string \<Rightarrow> string \<Rightarrow> string" where
  \<comment> \<open>\<open>s.rstrip(chars)\<close>: drops the longest suffix made of characters of \<open>chars\<close>\<close>
  "rstrip_chars chars s = rev (dropWhile (\<lambda>c. c \<in> set chars) (rev s))"

fun str_split :: "char \<Rightarrow> string \<Rightarrow> string list" where
  \<comment> \<open>\<open>s.split(sep)\<close> for a separator of one character\<close>
  "str_split sep [] = [[]]"
| "str_split sep (c # cs) =
     (if c = sep then [] # str_split sep cs
      else (case str_split sep cs of
              [] \<Rightarrow> [[c]]
            | p # ps \<Rightarrow> (c # p) # ps))"

fun str_join :: "string \<Rightarrow> string list \<Rightarrow> string" where
  \<comment> \<open>\<open>sep.join(parts)\<close>\<close>
  "str_join sep [] = []"
| "str_join sep [p] = p"
| "str_join sep (p # q # ps) = p @ sep @ str_join sep (q # ps)"

function replace_from :: "string \<Rightarrow> string \<Rightarrow> string \<Rightarrow> string" where
  "replace_from old new [] = []"
| "replace_from old new (c # cs) =
     (if prefix old (c # cs) then new @ replace_from old new (drop (length old - 1) cs)
      else c # replace_from old new cs)"
  by pat_completeness auto
termination
  by (relation "measure (\<lambda>(old, new, s). length s)") auto

definition str_replace :: "string \<Rightarrow> string \<Rightarrow> string \<Rightarrow> string" where
  \<comment> \<open>\<open>s.replace(old, new)\<close>: every occurrence, left to right, without overlap; an empty
      \<open>old\<close> matches before every character and at the end\<close>
  "str_replace old new s =
     (if old = [] then new @ concat (map (\<lambda>c. c # new) s) else replace_from old new s)"

function format_from :: "string \<Rightarrow> string \<Rightarrow> string" where
  "format_from [] arg = []"
| "format_from (c # cs) arg =
     (if prefix ''{}'' (c # cs) then arg @ drop 1 cs else c # format_from cs arg)"
  by pat_completeness auto
termination
  by (relation "measure (\<lambda>(t, arg). length t)") auto

definition str_format1 :: "string \<Rightarrow> string \<Rightarrow> string" where
  \<comment> \<open>\<open>template.format(arg)\<close> for a template with one replacement field \<open>{}\<close> and no
      other brace\<close>
  "str_format1 template arg = format_from template arg"

section \<open>The parsed HTML tree\<close>

text \<open>
  BeautifulSoup turns the raw HTML into a tree before any function of the program looks at
  it; the tree is the input of the model. A tag has a name, the list of its classes (the
  value of the multi-valued \<open>class\<close> attribute, empty when absent), its other attributes
  and its children.
\<close>

datatype node =
    NavigableString string
  | Tag string "string list" "(string \<times> string) list" "node list"

fun descendants :: "node \<Rightarrow> node list" where
  \<comment> \<open>all nodes below a node, in document order\<close>
  "descendants (NavigableString s) = []"
| "descendants (Tag n cl at cs) = concat (map (\<lambda>c. c # descendants c) cs)"

fun get_text :: "node \<Rightarrow> string" where
  \<comment> \<open>\<open>tag.text\<close>: the strings below the tag, concatenated\<close>
  "get_text (NavigableString s) = s"
| "get_text (Tag n cl at cs) = concat (map get_text cs)"

fun matches :: "string \<Rightarrow> string option \<Rightarrow> node \<Rightarrow> bool" where
  \<comment> \<open>a class filter matches one of the tag's classes, or the whole attribute value\<close>
  "matches n c (NavigableString s) = False"
| "matches n c (Tag n' cl at cs) =
     (n' = n \<and> (case c of None \<Rightarrow> True
                | Some q \<Rightarrow> q \<in> set cl \<or> (cl \<noteq> [] \<and> q = str_join '' '' cl)))"

definition find_all :: "string \<Rightarrow> string option \<Rightarrow> node \<Rightarrow> node list" where
  "find_all n c t = filter (matches n c) (descendants t)"

definition find :: "string \<Rightarrow> string option \<Rightarrow> node \<Rightarrow> node option" where
  "find n c t = (case find_all n c t of [] \<Rightarrow> None | x # xs \<Rightarrow> Some x)"

fun get_attr :: "node \<Rightarrow> string \<Rightarrow> string option" where
  \<comment> \<open>\<open>tag.get(key)\<close>\<close>
  "get_attr (NavigableString s) k = None"
| "get_attr (Tag n cl at cs) k = map_of at k"

datatype error = AttributeError | KeyError | IndexError | FileNotFoundError | CsvError

definition getitem_attr :: "node \<Rightarrow> string \<Rightarrow> error + string" where
  \<comment> \<open>\<open>tag[key]\<close> raises KeyError when the attribute is missing\<close>
  "getitem_attr t k = (case get_attr t k of None \<Rightarrow> Inl KeyError | Some v \<Rightarrow> Inr v)"

section \<open>The record extractor: \<open>PythonDataParser\<close>\<close>

definition PYTHON_DOC_BASE_URL :: string where
  "PYTHON_DOC_BASE_URL = ''https://docs.python.org/3.5{}''"

definition DOWNLOADED_HTML_PATHS :: "(string \<times> string) list" where
  "DOWNLOADED_HTML_PATHS =
     [(''python3'', ''download/python-3.5.2-docs-html''),
      (''python2'', ''download/python-2.7.12-docs-html'')]"

record PythonDataParser =
  function_sections :: "node list"
  method_sections :: "node list"
  intro_text :: string
  title :: string
  download_path :: string
  file_being_used :: string

text \<open>The dictionary \<open>data_elements\<close> always has the same five keys.\<close>

record data_element =
  module :: string
  function_name :: string
  method_signature :: string
  first_paragraph :: string
  url :: string

definition fix_spacing :: "string \<Rightarrow> string" where
  \<comment> \<open>\<open>.replace('  ', ' ').replace('\n', ' ').replace('\\n', r'\\n')\<close>\<close>
  "fix_spacing s =
     str_replace [CHR 0x5C, CHR ''n''] [CHR 0x5C, CHR 0x5C, CHR ''n'']
       (str_replace [CHR 0x0A] '' '' (str_replace ''  '' '' '' s))"

definition init_parser :: "string \<Rightarrow> node \<Rightarrow> string \<Rightarrow> PythonDataParser" where
  \<comment> \<open>\<open>PythonDataParser.__init__\<close>; \<open>file\<close> is \<open>data_object.get_file()\<close> and \<open>soup_data\<close> the
      parsed \<open>data_object.get_raw_data()\<close>\<close>
  "init_parser file soup_data path =
     (let sections = find_all ''div'' (Some ''section'') soup_data
      in \<lparr> function_sections =
             concat (map (find_all ''dl'' (Some ''function'')) sections),
           method_sections =
             concat (map (find_all ''dl'' (Some ''method'')) sections),
           intro_text =
             concat (map (\<lambda>p. fix_spacing (get_text p)) (take 2 (find_all ''p'' None soup_data))),
           title =
             (case find ''a'' (Some ''reference internal'') soup_data of
                None \<Rightarrow> [] | Some t \<Rightarrow> get_text t),
           download_path = path,
           file_being_used = file \<rparr>)"

definition parse_for_module_name :: "node \<Rightarrow> string" where
  "parse_for_module_name section =
     (case find ''code'' (Some ''descclassname'') section of
        Some module_name \<Rightarrow> rstrip_chars ''.'' (get_text module_name)
      | None \<Rightarrow> [])"

definition parse_for_function_name :: "node \<Rightarrow> string" where
  "parse_for_function_name section =
     (case find ''code'' (Some ''descname'') section of
        Some fn \<Rightarrow> get_text fn
      | None \<Rightarrow> [])"

definition parse_for_first_paragraph :: "node \<Rightarrow> string" where
  "parse_for_first_paragraph section =
     (case filter (\<lambda>paragraph. get_text paragraph \<noteq> []) (find_all ''p'' None section) of
        paragraph # rest \<Rightarrow> fix_spacing (get_text paragraph)
      | [] \<Rightarrow> [])"

definition parse_for_anchor :: "node \<Rightarrow> error + string" where
  "parse_for_anchor section =
     (case find ''a'' (Some ''headerlink'') section of
        Some a_tag \<Rightarrow> getitem_attr a_tag ''href''
      | None \<Rightarrow> Inr [])"

definition parse_for_method_signature :: "node \<Rightarrow> string" where
  "parse_for_method_signature section =
     (case find ''dt'' None section of
        Some dt \<Rightarrow>
          ''<pre><code>'' @
          str_replace [CHR 0x5C, CHR ''n''] [CHR 0x5C, CHR 0x5C, CHR ''n'']
            (str_replace [CHR 0x0A] [] (str_replace [CHR 0xB6] [] (get_text dt))) @
          ''</code></pre>''
      | None \<Rightarrow> [])"

definition parse_for_class_method :: "node \<Rightarrow> error + string list" where
  \<comment> \<open>\<open>section.find('dt').get('id')\<close> raises AttributeError when there is no \<open>dt\<close>\<close>
  "parse_for_class_method section =
     (case find ''dt'' None section of
        None \<Rightarrow> Inl AttributeError
      | Some dt \<Rightarrow>
          (case get_attr dt ''id'' of
             None \<Rightarrow> Inr [[], [], []]
           | Some id_tag \<Rightarrow>
               if id_tag \<noteq> [] then
                 (let tag_parts = str_split CHR ''.'' id_tag in
                  if length tag_parts = 3 then Inr tag_parts
                  else if length tag_parts > 3 then
                    Inr [tag_parts ! 0, tag_parts ! 1, str_join ''.'' (drop 2 tag_parts)]
                  else Inr [[], [], []])
               else Inr [[], [], []]))"

definition create_url :: "PythonDataParser \<Rightarrow> string \<Rightarrow> string" where
  "create_url self anchor =
     (let file_path = str_replace (download_path self) [] (file_being_used self)
      in str_format1 PYTHON_DOC_BASE_URL (file_path @ anchor))"

definition intro_data :: "PythonDataParser \<Rightarrow> data_element list" where
  \<comment> \<open>the first block of \<open>parse_for_data\<close>\<close>
  "intro_data self =
     (if intro_text self \<noteq> [] \<and> title self \<noteq> [] then
        [\<lparr> module = title self, function_name = [], method_signature = [],
           first_paragraph = intro_text self, url = create_url self [] \<rparr>]
      else [])"

definition function_element :: "PythonDataParser \<Rightarrow> node \<Rightarrow> string \<Rightarrow> string \<Rightarrow> string \<Rightarrow> data_element" where
  \<comment> \<open>the dictionary built for a function block\<close>
  "function_element self function_section m f anchor =
     \<lparr> module = m, function_name = f,
       method_signature = parse_for_method_signature function_section,
       first_paragraph = parse_for_first_paragraph function_section,
       url = create_url self anchor \<rparr>"

fun function_data :: "PythonDataParser \<Rightarrow> node list \<Rightarrow> error + data_element list" where
  \<comment> \<open>the loop over \<open>self.function_sections\<close>\<close>
  "function_data self [] = Inr []"
| "function_data self (function_section # rest) =
     (let m = parse_for_module_name function_section;
          f = parse_for_function_name function_section
      in if m \<noteq> [] \<or> f \<noteq> [] then
           (case parse_for_anchor function_section of
              Inl e \<Rightarrow> Inl e
            | Inr anchor \<Rightarrow>
                (case function_data self rest of
                   Inl e \<Rightarrow> Inl e
                 | Inr data \<Rightarrow> Inr (function_element self function_section m f anchor # data)))
         else function_data self rest)"

definition method_element :: "PythonDataParser \<Rightarrow> node \<Rightarrow> string \<Rightarrow> string \<Rightarrow> string \<Rightarrow> data_element" where
  \<comment> \<open>the dictionary built for a method block\<close>
  "method_element self method_section m class_name method =
     \<lparr> module = m, function_name = class_name @ ''.'' @ method,
       method_signature = parse_for_method_signature method_section,
       first_paragraph = parse_for_first_paragraph method_section,
       url = create_url self (''#'' @ str_join ''.'' [m, class_name, method]) \<rparr>"

fun method_data :: "PythonDataParser \<Rightarrow> node list \<Rightarrow> error + data_element list" where
  \<comment> \<open>the loop over \<open>self.method_sections\<close>; the three parts are \<open>module, class_name, method\<close>\<close>
  "method_data self [] = Inr []"
| "method_data self (method_section # rest) =
     (case parse_for_class_method method_section of
        Inl e \<Rightarrow> Inl e
      | Inr parts \<Rightarrow>
          (let m = parts ! 0; class_name = parts ! 1; method = parts ! 2
           in if method \<noteq> [] then
                (case method_data self rest of
                   Inl e \<Rightarrow> Inl e
                 | Inr data \<Rightarrow> Inr (method_element self method_section m class_name method # data))
              else method_data self rest))"

definition parse_for_data :: "PythonDataParser \<Rightarrow> error + data_element list" where
  \<comment> \<open>the value left in \<open>self.parsed_data\<close>, or the exception raised\<close>
  "parse_for_data self =
     (case function_data self (function_sections self) of
        Inl e \<Rightarrow> Inl e
      | Inr fs \<Rightarrow>
          (case method_data self (method_sections self) of
             Inl e \<Rightarrow> Inl e
           | Inr ms \<Rightarrow> Inr (intro_data self @ fs @ ms)))"

section \<open>The record writer: \<open>PythonDataOutput\<close>\<close>

text \<open>
  A row is the list \<open>list_of_data\<close> of its fields. A file is its text, and the file system
  maps a file name to the text of the file.
\<close>

type_synonym row = "string list"

type_synonym files = "string \<rightharpoonup> string"

record PythonDataOutput =
  data :: "data_element list"
  output_file :: string

definition init_output :: "data_element list \<Rightarrow> string \<Rightarrow> PythonDataOutput" where
  "init_output d version =
     \<lparr> data = d, output_file = (if version = ''python2'' then ''output_py2.txt'' else ''output.txt'') \<rparr>"

definition create_names_from_data :: "data_element \<Rightarrow> string \<times> string" where
  "create_names_from_data data_element =
     (let m = module data_element;
          f = function_name data_element;
          dotted_name = m @ (if m \<noteq> [] \<and> f \<noteq> [] then ''.'' else []) @ f;
          spaced_name = m @ '' '' @ f
      in (strip dotted_name, strip spaced_name))"

definition article_row :: "string \<Rightarrow> string \<Rightarrow> string \<Rightarrow> row" where
  "article_row name abstract u =
     [name, ''A'', [], [], [], [], [], [], ''https://docs.python.org'', [], [], abstract, u]"

definition redirect_row :: "string \<Rightarrow> string \<Rightarrow> row" where
  "redirect_row redirect name =
     [redirect, ''R'', name, [], [], [], [], [], [], [], [], [], []]"

definition make_abstract :: "data_element \<Rightarrow> string" where
  "make_abstract data_element =
     (let s = method_signature data_element; p = first_paragraph data_element
      in s @ (if s \<noteq> [] \<and> p \<noteq> [] then ''<br>'' else []) @ p)"

definition rows_of_element :: "data_element \<Rightarrow> row list" where
  \<comment> \<open>the lines one pass of the loop of \<open>create_file\<close> writes\<close>
  "rows_of_element data_element =
     (if module data_element \<noteq> [] \<or> function_name data_element \<noteq> [] then
        (let (name, redirect) = create_names_from_data data_element
         in article_row name (make_abstract data_element) (url data_element) #
            (if redirect \<noteq> name then [redirect_row redirect name] else []))
      else [])"

definition tsv_line :: "row \<Rightarrow> string" where
  \<comment> \<open>\<open>'{}\n'.format('\t'.join(list_of_data))\<close>\<close>
  "tsv_line r = str_join [CHR 0x09] r @ [CHR 0x0A]"

definition append_text :: "files \<Rightarrow> string \<Rightarrow> string \<Rightarrow> files" where
  \<comment> \<open>writing to a file opened with \<open>open(name, 'a')\<close>, which creates a missing file\<close>
  "append_text fs name txt =
     fs(name \<mapsto> (case fs name of None \<Rightarrow> [] | Some old \<Rightarrow> old) @ txt)"

definition create_file :: "PythonDataOutput \<Rightarrow> files \<Rightarrow> files" where
  "create_file self fs =
     append_text fs (output_file self)
       (concat (map tsv_line (concat (map rows_of_element (data self)))))"

section \<open>The reconciler: \<open>unify\<close>\<close>

text \<open>
  The tables of petl: the first row of a table is its header. \<open>fromtsv\<close> gives the rows
  that the csv reader of the dialect \<open>excel-tab\<close> finds in the text of a file; the reader
  belongs to the Python library and is a parameter \<open>read\<close> of the model, so that nothing
  is assumed about the way it treats quotes, tabs and line ends. \<open>setheader\<close> replaces the
  first row, \<open>sort\<close> is stable and puts a row without the key first, \<open>unique\<close> selects the
  rows whose key no other row has, and \<open>lookup\<close> builds a dictionary from a key to the list
  of the rows with that key, each cut to the fields of the header, in the order of first
  appearance (the order in which \<open>items()\<close> visits the dictionary). The field \<open>name\<close> is the
  first one of \<open>header\<close>. The output files have no header line, so the first line of each
  file is the one that \<open>setheader\<close> replaces.
\<close>

definition header :: row where
  "header = [''name'', ''article_type'', ''redirects'', ''ignore'', ''categories'', ''ignore2'',
     ''related'', ''ignore3'', ''external_links'', ''disambiguation'', ''images'', ''abstract'',
     ''url'']"

type_synonym reader = "string \<Rightarrow> error + row list"

definition fromtsv :: "reader \<Rightarrow> files \<Rightarrow> string \<Rightarrow> error + row list" where
  "fromtsv read fs name = (case fs name of None \<Rightarrow> Inl FileNotFoundError | Some content \<Rightarrow> read content)"

definition setheader :: "row \<Rightarrow> row list \<Rightarrow> row list" where
  \<comment> \<open>petl: "Replace header row in the given table"; the first row is discarded\<close>
  "setheader h t = h # drop 1 t"

definition sortkey :: "row \<Rightarrow> string option" where
  \<comment> \<open>the key \<open>sort\<close> compares: the field \<open>name\<close>, or \<open>None\<close> for a row without fields;
      \<open>None\<close> is below every string\<close>
  "sortkey r = (case r of [] \<Rightarrow> None | x # xs \<Rightarrow> Some x)"

definition sort_name :: "row list \<Rightarrow> row list" where
  \<comment> \<open>\<open>sort(key='name')\<close>: the header stays, the other rows are sorted by name\<close>
  "sort_name t = take 1 t @ sort_key sortkey (drop 1 t)"

definition getkey :: "row \<Rightarrow> string" where
  \<comment> \<open>\<open>operator.itemgetter(0)\<close> on a row that has a field\<close>
  "getkey r = (case r of [] \<Rightarrow> [] | x # xs \<Rightarrow> x)"

fun iterunique :: "row \<Rightarrow> bool \<Rightarrow> row list \<Rightarrow> row list" where
  \<comment> \<open>the loop of petl's \<open>iterunique\<close> ("Select rows with unique values under a given
      key"): \<open>prev\<close> is yielded when its key differs from both neighbours'\<close>
  "iterunique prev prev_comp_ne [] = (if prev_comp_ne then [prev] else [])"
| "iterunique prev prev_comp_ne (cur # it) =
     (let curr_comp_ne = (getkey cur \<noteq> getkey prev)
      in (if prev_comp_ne \<and> curr_comp_ne then [prev] else []) @ iterunique cur curr_comp_ne it)"

definition unique_name :: "row list \<Rightarrow> error + row list" where
  \<comment> \<open>\<open>unique(key='name')\<close> sorts its table by the key before it selects; the key getter of
      \<open>iterunique\<close> raises IndexError on a row without fields, which the sort has put first\<close>
  "unique_name t =
     (let s = sort_name t
      in if [] \<in> set (drop 1 s) then Inl IndexError
         else Inr (take 1 s @
                   (case drop 1 s of [] \<Rightarrow> [] | prev # it \<Rightarrow> iterunique prev True it)))"

type_synonym lookup_dict = "(string \<times> row list) list"

definition lookup_add :: "lookup_dict \<Rightarrow> string \<Rightarrow> row \<Rightarrow> lookup_dict" where
  \<comment> \<open>one row enters the dictionary of \<open>lookup\<close>\<close>
  "lookup_add d k v =
     (case map_of d k of
        None \<Rightarrow> d @ [(k, [v])]
      | Some l \<Rightarrow> AList.update k (l @ [v]) d)"

fun lookup_rows :: "nat \<Rightarrow> lookup_dict \<Rightarrow> row list \<Rightarrow> error + lookup_dict" where
  \<comment> \<open>the value of a row is the tuple of its first \<open>n\<close> fields, \<open>n\<close> the length of the
      header: IndexError on a shorter row\<close>
  "lookup_rows n d [] = Inr d"
| "lookup_rows n d (r # rows) =
     (if length r < n \<or> r = [] then Inl IndexError
      else lookup_rows n (lookup_add d (getkey r) (take n r)) rows)"

definition lookup_name :: "row list \<Rightarrow> error + lookup_dict" where
  "lookup_name t = (case t of [] \<Rightarrow> Inr [] | hdr # rows \<Rightarrow> lookup_rows (length hdr) [] rows)"

definition load_table :: "reader \<Rightarrow> files \<Rightarrow> string \<Rightarrow> error + lookup_dict" where
  \<comment> \<open>\<open>petl.fromtsv(name).setheader(header).sort(key='name').unique(key='name').lookup('name')\<close>\<close>
  "load_table read fs name =
     (case fromtsv read fs name of
        Inl e \<Rightarrow> Inl e
      | Inr t \<Rightarrow>
          (case unique_name (sort_name (setheader header t)) of
             Inl e \<Rightarrow> Inl e
           | Inr unique_table \<Rightarrow> lookup_name unique_table))"

definition getitem :: "'a list \<Rightarrow> nat \<Rightarrow> error + 'a" where
  \<comment> \<open>\<open>xs[i]\<close> for \<open>i \<ge> 0\<close>\<close>
  "getitem xs i = (if i < length xs then Inr (xs ! i) else Inl IndexError)"

definition first_abstract :: "row list \<Rightarrow> error + string" where
  \<comment> \<open>\<open>v[0][11]\<close>\<close>
  "first_abstract v = (case getitem v 0 of Inl e \<Rightarrow> Inl e | Inr r \<Rightarrow> getitem r 11)"

fun unify_loop ::
  "lookup_dict \<Rightarrow> (string \<times> row list) list \<Rightarrow> row list \<times> nat \<times> nat \<Rightarrow> error + row list \<times> nat \<times> nat"
where
  \<comment> \<open>the loop over \<open>table3.items()\<close>; the state is \<open>(new_table2, differ, nf)\<close>\<close>
  "unify_loop table2 [] st = Inr st"
| "unify_loop table2 ((k, v) # items) (new_table2, differ, nf) =
     (case map_of table2 k of
        None \<Rightarrow> unify_loop table2 items (new_table2, differ, nf + 1)
      | Some v2 \<Rightarrow>
          (case first_abstract v of
             Inl e \<Rightarrow> Inl e
           | Inr a3 \<Rightarrow>
               (case first_abstract v2 of
                  Inl e \<Rightarrow> Inl e
                | Inr a2 \<Rightarrow>
                    if a3 \<noteq> a2 then
                      (case getitem v 0 of
                         Inl e \<Rightarrow> Inl e
                       | Inr r \<Rightarrow> unify_loop table2 items (new_table2 @ [r], differ + 1, nf))
                    else unify_loop table2 items (new_table2, differ, nf + 1))))"

definition unify :: "reader \<Rightarrow> files \<Rightarrow> error + files \<times> nat \<times> nat" where
  \<comment> \<open>the files after the run, and the two counts printed; \<open>open(name, 'w')\<close> empties the
      file before the rows of \<open>new_table2\<close> are written\<close>
  "unify read fs =
     (case load_table read fs ''output_py2.txt'' of
        Inl e \<Rightarrow> Inl e
      | Inr table2 \<Rightarrow>
          (case load_table read fs ''output.txt'' of
             Inl e \<Rightarrow> Inl e
           | Inr table3 \<Rightarrow>
               (case unify_loop table2 table3 ([], 0, 0) of
                  Inl e \<Rightarrow> Inl e
                | Inr (new_table2, differ, nf) \<Rightarrow>
                    Inr (fs(''output_py2.txt'' \<mapsto> concat (map tsv_line new_table2)), differ, nf))))"

definition read_plain_tsv :: reader where
  \<comment> \<open>Modelled from the documentation of the csv module: what the reader of the dialect
      \<open>excel-tab\<close> returns for a text that holds no double quote and no carriage return: a
      row for every line, a field for every piece between two tabs, no field for an empty
      line. It stands for the reader in the examples only.\<close>
  "read_plain_tsv content =
     (let pieces = str_split (CHR 0x0A) content;
          lines = (if last pieces = [] then butlast pieces else pieces)
      in Inr (map (\<lambda>line. if line = [] then [] else str_split (CHR 0x09) line) lines))"

section \<open>Example inputs\<close>

definition example_function_block :: node where
  \<comment> \<open>a function block with a declared name only\<close>
  "example_function_block =
     Tag ''dl'' [''function''] [] [Tag ''code'' [''descname''] [] [NavigableString ''getcwd'']]"

definition example_empty_block :: node where
  "example_empty_block = Tag ''dl'' [''function''] [] [Tag ''dd'' [] [] []]"

definition example_module_only_block :: node where
  \<comment> \<open>a function block with a module name and no declared name\<close>
  "example_module_only_block =
     Tag ''dl'' [''function''] [] [Tag ''code'' [''descclassname''] [] [NavigableString ''os.'']]"

definition example_method_no_id :: node where
  "example_method_no_id = Tag ''dl'' [''method''] [] [Tag ''dt'' [] [] [NavigableString ''f()'']]"

definition example_method_block :: node where
  "example_method_block =
     Tag ''dl'' [''method''] []
       [Tag ''dt'' [] [(''id'', ''os.path.join'')] [NavigableString ''join()'']]"

definition example_soup :: node where
  "example_soup =
     Tag ''[document]'' [] []
       [Tag ''div'' [''section''] []
          [example_function_block, example_empty_block, example_method_no_id,
           example_method_block]]"

definition example_parser :: PythonDataParser where
  \<comment> \<open>a document of the python2 tree\<close>
  "example_parser =
     init_parser ''download/python-2.7.12-docs-html/library/os.html'' example_soup
       ''download/python-2.7.12-docs-html''"

definition example_module_only_parser :: PythonDataParser where
  "example_module_only_parser =
     init_parser ''download/python-3.5.2-docs-html/library/os.html''
       (Tag ''[document]'' [] [] [Tag ''div'' [''section''] [] [example_module_only_block]])
       ''download/python-3.5.2-docs-html''"

definition example_records :: "data_element list" where
  \<comment> \<open>what extraction yields for \<open>example_parser\<close>\<close>
  "example_records =
     [\<lparr> module = [], function_name = ''getcwd'', method_signature = [],
        first_paragraph = [], url = ''https://docs.python.org/3.5/library/os.html'' \<rparr>,
      \<lparr> module = ''os'', function_name = ''path.join'',
        method_signature = ''<pre><code>join()</code></pre>'',
        first_paragraph = [],
        url = ''https://docs.python.org/3.5/library/os.html#os.path.join'' \<rparr>]"

definition example_module_only_record :: data_element where
  "example_module_only_record =
     \<lparr> module = ''os'', function_name = [], method_signature = [], first_paragraph = [],
       url = ''https://docs.python.org/3.5/library/os.html'' \<rparr>"

definition example_row :: "string \<Rightarrow> string \<Rightarrow> row" where
  \<comment> \<open>a row of kind \<open>A\<close> with the given name and abstract\<close>
  "example_row name abstract = article_row name abstract ''https://docs.python.org/3.5/library/os.html''"

definition example_older_rows :: "row list" where
  "example_older_rows =
     [example_row ''abc'' ''first line'', example_row ''os.getcwd'' ''A'',
      example_row ''os.getpid'' ''same'', example_row ''os.old'' ''older only'']"

definition example_newer_rows :: "row list" where
  "example_newer_rows =
     [example_row ''abc'' ''first line'', example_row ''os.getcwd'' ''B'',
      example_row ''os.getpid'' ''same'', example_row ''os.new'' ''newer only'']"

definition example_files :: files where
  \<comment> \<open>the first line of each file is the one petl takes for the header\<close>
  "example_files =
     [''output_py2.txt'' \<mapsto> concat (map tsv_line example_older_rows),
      ''output.txt'' \<mapsto> concat (map tsv_line example_newer_rows)]"

definition example_dup_older_rows :: "row list" where
  \<comment> \<open>the name \<open>os.dup\<close> is on two rows\<close>
  "example_dup_older_rows =
     [example_row ''abc'' ''first line'', example_row ''os.dup'' ''A1'',
      example_row ''os.dup'' ''A2'']"

definition example_dup_newer_rows :: "row list" where
  "example_dup_newer_rows = [example_row ''abc'' ''first line'', example_row ''os.dup'' ''B'']"

definition example_dup_files :: files where
  "example_dup_files =
     [''output_py2.txt'' \<mapsto> concat (map tsv_line example_dup_older_rows),
      ''output.txt'' \<mapsto> concat (map tsv_line example_dup_newer_rows)]"

definition example_table :: "row list" where
  \<comment> \<open>a table with its header, not sorted, with one name on two rows\<close>
  "example_table =
     [header, example_row ''os.sep'' ''separator'', example_row ''os.dup'' ''first'',
      example_row ''os.dup'' ''second'', example_row ''os.abc'' ''abstract'']"

lemmas example_defs = example_function_block_def example_empty_block_def
  example_module_only_block_def example_method_no_id_def example_method_block_def
  example_soup_def

section \<open>Module names\<close>

lemma rstrip_chars_decomp:
  "\<exists>n. s = rstrip_chars [c] s @ replicate n c"
proof -
  have "\<exists>n. xs = replicate n c @ dropWhile (\<lambda>x. x = c) xs" for xs :: string
  proof (induction xs)
    case Nil
    show ?case by simp
  next
    case (Cons x xs)
    show ?case
    proof (cases "x = c")
      case True
      from Cons obtain n where "xs = replicate n c @ dropWhile (\<lambda>x. x = c) xs" by blast
      then have "x # xs = replicate (Suc n) c @ dropWhile (\<lambda>x. x = c) (x # xs)"
        using True by simp
      then show ?thesis by blast
    next
      case False
      then have "x # xs = replicate 0 c @ dropWhile (\<lambda>x. x = c) (x # xs)" by simp
      then show ?thesis by blast
    qed
  qed
  then obtain n where "rev s = replicate n c @ dropWhile (\<lambda>x. x = c) (rev s)" by blast
  then have "rev (rev s) = rev (replicate n c @ dropWhile (\<lambda>x. x = c) (rev s))" by simp
  then have "s = rev (dropWhile (\<lambda>x. x = c) (rev s)) @ replicate n c"
    by (simp del: rev_rev_ident add: rev_rev_ident [of s])
  then show ?thesis
    by (auto simp: rstrip_chars_def)
qed

lemma rstrip_chars_no_suffix:
  "\<not> suffix [c] (rstrip_chars [c] s)"
proof
  assume "suffix [c] (rstrip_chars [c] s)"
  then obtain p where p: "rstrip_chars [c] s = p @ [c]" by (auto simp: suffix_def)
  then have "dropWhile (\<lambda>x. x = c) (rev s) = c # rev p"
    by (simp add: rstrip_chars_def rev_swap)
  moreover have "dropWhile (\<lambda>x. x = c) (rev s) = [] \<or> \<not> (hd (dropWhile (\<lambda>x. x = c) (rev s)) = c)"
    using hd_dropWhile [of "\<lambda>x. x = c" "rev s"] by blast
  ultimately show False by simp
qed

text \<open>
  Claim C10. The module name of a function block is the text of its \<open>descclassname\<close>
  element with every trailing dot removed: the text is the module name followed by dots only,
  and the module name does not end with a dot.
\<close>

theorem parse_for_module_name_strips_every_dot:
  assumes "find ''code'' (Some ''descclassname'') section = Some module_name"
  shows "(\<exists>n. get_text module_name = parse_for_module_name section @ replicate n CHR ''.'') \<and>
         \<not> suffix ''.'' (parse_for_module_name section)"
  using assms rstrip_chars_decomp [of "get_text module_name" "CHR ''.''"]
    rstrip_chars_no_suffix [of "CHR ''.''" "get_text module_name"]
  by (simp add: parse_for_module_name_def)

theorem parse_for_module_name_strips_every_dot_witness:
  "find ''code'' (Some ''descclassname'')
     (Tag ''dl'' [''function''] []
        [Tag ''dt'' [] [] [Tag ''code'' [''descclassname''] [] [NavigableString ''socket..'']]])
     = Some (Tag ''code'' [''descclassname''] [] [NavigableString ''socket..'']) \<and>
   parse_for_module_name
     (Tag ''dl'' [''function''] []
        [Tag ''dt'' [] [] [Tag ''code'' [''descclassname''] [] [NavigableString ''socket..'']]])
     = ''socket'' \<and>
   (\<exists>n. get_text (Tag ''code'' [''descclassname''] [] [NavigableString ''socket..'']) =
      parse_for_module_name
        (Tag ''dl'' [''function''] []
           [Tag ''dt'' [] [] [Tag ''code'' [''descclassname''] [] [NavigableString ''socket..'']]])
      @ replicate n CHR ''.'') \<and>
   \<not> suffix ''.'' (parse_for_module_name
     (Tag ''dl'' [''function''] []
        [Tag ''dt'' [] [] [Tag ''code'' [''descclassname''] [] [NavigableString ''socket..'']]]))"
proof -
  let ?e = "Tag ''code'' [''descclassname''] [] [NavigableString ''socket..'']"
  let ?s = "Tag ''dl'' [''function''] [] [Tag ''dt'' [] [] [?e]]"
  have h: "find ''code'' (Some ''descclassname'') ?s = Some ?e"
    by (simp add: find_def find_all_def)
  have v: "parse_for_module_name ?s = ''socket''"
    by (simp add: parse_for_module_name_def h rstrip_chars_def)
  from parse_for_module_name_strips_every_dot [OF h] h v show ?thesis
    by blast
qed

section \<open>Output rows\<close>

text \<open>Every row that \<open>create_file\<close> writes has 13 fields.\<close>

lemma rows_of_element_length:
  assumes "r \<in> set (rows_of_element d)"
  shows "length r = 13"
  using assms
  by (auto simp: rows_of_element_def article_row_def redirect_row_def
      split: if_splits prod.splits)

text \<open>
  Claim C7. In every row of kind \<open>A\<close> that the writer emits for a record, the abstract (field
  11) is the signature, \<open><br>\<close> and the summary when both are non-empty, the non-empty one
  of the two when exactly one is, and empty when both are empty.
\<close>

theorem create_file_abstract:
  assumes "r \<in> set (rows_of_element d)" and "r ! 1 = ''A''"
  shows "r ! 11 =
    (if method_signature d \<noteq> [] \<and> first_paragraph d \<noteq> []
       then method_signature d @ ''<br>'' @ first_paragraph d
     else if method_signature d \<noteq> [] then method_signature d
     else if first_paragraph d \<noteq> [] then first_paragraph d
     else [])"
  using assms
  by (auto simp: rows_of_element_def article_row_def redirect_row_def make_abstract_def
      split: if_splits prod.splits)

theorem create_file_abstract_witness:
  "[''os.getcwd'', ''A'', [], [], [], [], [], [], ''https://docs.python.org'', [], [],
    ''<pre><code>os.getcwd()</code></pre><br>Return the cwd.'', ''u'']
     \<in> set (rows_of_element \<lparr> module = ''os'', function_name = ''getcwd'',
          method_signature = ''<pre><code>os.getcwd()</code></pre>'',
          first_paragraph = ''Return the cwd.'', url = ''u'' \<rparr>) \<and>
   [''os.getcwd'', ''A'', [], [], [], [], [], [], ''https://docs.python.org'', [], [],
    ''<pre><code>os.getcwd()</code></pre><br>Return the cwd.'', ''u''] ! 1 = ''A'' \<and>
   [''os.getcwd'', ''A'', [], [], [], [], [], [], ''https://docs.python.org'', [], [],
    ''<pre><code>os.getcwd()</code></pre><br>Return the cwd.'', ''u''] ! 11 =
     ''<pre><code>os.getcwd()</code></pre>'' @ ''<br>'' @ ''Return the cwd.''"
proof -
  let ?d = "\<lparr> module = ''os'', function_name = ''getcwd'',
          method_signature = ''<pre><code>os.getcwd()</code></pre>'',
          first_paragraph = ''Return the cwd.'', url = ''u'' \<rparr>"
  let ?r = "[''os.getcwd'', ''A'', [], [], [], [], [], [], ''https://docs.python.org'', [], [],
    ''<pre><code>os.getcwd()</code></pre><br>Return the cwd.'', ''u'']"
  have m: "?r \<in> set (rows_of_element ?d)"
    by (simp add: rows_of_element_def create_names_from_data_def article_row_def
        make_abstract_def strip_def lstrip_def rstrip_def isspace_def Let_def)
  have a: "?r ! 1 = ''A''" by simp
  from create_file_abstract [OF m a] m a show ?thesis by simp
qed

lemma strip_id:
  assumes "s \<noteq> []" and "\<not> isspace (hd s)" and "\<not> isspace (last s)"
  shows "strip s = s"
proof -
  from assms(1) obtain x xs where s: "s = x # xs" by (cases s) auto
  from assms(1) have "s = butlast s @ [last s]" by simp
  then have "rev s = rev (butlast s @ [last s])" by (rule arg_cong)
  then have r: "rev s = last s # rev (butlast s)" by simp
  have "dropWhile isspace (last s # rev (butlast s)) = last s # rev (butlast s)"
    using assms(3) by simp
  then have "dropWhile isspace (rev s) = rev s" unfolding r .
  then have "rstrip s = s" by (simp add: rstrip_def)
  moreover from s assms(2) have "lstrip s = s" by (simp add: lstrip_def)
  ultimately show ?thesis by (simp add: strip_def)
qed

text \<open>
  Claim C3. For a record the writer accepts, the dotted name is the trimmed
  \<open>module + "." + function\<close> when both are non-empty and the trimmed non-empty one of the
  two otherwise (trimming changes nothing when the module does not start and the function
  does not end with white space), the spaced name is the trimmed
  \<open>module + " " + function\<close>; the writer emits one \<open>A\<close> row named by the dotted name,
  followed by an \<open>R\<close> row from the spaced name to the dotted name exactly when the two names
  differ.
\<close>

theorem create_file_names:
  assumes "module d \<noteq> [] \<or> function_name d \<noteq> []"
  shows "create_names_from_data d =
           (strip (if module d \<noteq> [] \<and> function_name d \<noteq> []
                     then module d @ ''.'' @ function_name d
                   else if module d \<noteq> [] then module d else function_name d),
            strip (module d @ '' '' @ function_name d)) \<and>
         (module d \<noteq> [] \<and> function_name d \<noteq> [] \<and> \<not> isspace (hd (module d)) \<and>
          \<not> isspace (last (function_name d)) \<longrightarrow>
            fst (create_names_from_data d) = module d @ ''.'' @ function_name d) \<and>
         rows_of_element d =
           [fst (create_names_from_data d), ''A'', [], [], [], [], [], [],
            ''https://docs.python.org'', [], [], make_abstract d, url d] #
           (if snd (create_names_from_data d) \<noteq> fst (create_names_from_data d)
            then [[snd (create_names_from_data d), ''R'', fst (create_names_from_data d),
                   [], [], [], [], [], [], [], [], [], []]]
            else [])"
proof -
  have names: "create_names_from_data d =
           (strip (if module d \<noteq> [] \<and> function_name d \<noteq> []
                     then module d @ ''.'' @ function_name d
                   else if module d \<noteq> [] then module d else function_name d),
            strip (module d @ '' '' @ function_name d))"
    by (auto simp: create_names_from_data_def Let_def)
  have plain: "fst (create_names_from_data d) = module d @ ''.'' @ function_name d"
    if "module d \<noteq> []" "function_name d \<noteq> []" "\<not> isspace (hd (module d))"
       "\<not> isspace (last (function_name d))"
  proof -
    from that have "strip (module d @ ''.'' @ function_name d) = module d @ ''.'' @ function_name d"
      by (intro strip_id) simp_all
    with that names show ?thesis by simp
  qed
  have rows: "rows_of_element d =
           [fst (create_names_from_data d), ''A'', [], [], [], [], [], [],
            ''https://docs.python.org'', [], [], make_abstract d, url d] #
           (if snd (create_names_from_data d) \<noteq> fst (create_names_from_data d)
            then [[snd (create_names_from_data d), ''R'', fst (create_names_from_data d),
                   [], [], [], [], [], [], [], [], [], []]]
            else [])"
    using assms
    by (auto simp: rows_of_element_def article_row_def redirect_row_def split: prod.splits)
  from names plain rows show ?thesis by blast
qed

theorem create_file_names_witness:
  "module \<lparr> module = ''os'', function_name = ''getcwd'', method_signature = ''s'',
        first_paragraph = ''p'', url = ''u'' \<rparr> \<noteq> [] \<and>
   create_names_from_data \<lparr> module = ''os'', function_name = ''getcwd'', method_signature = ''s'',
        first_paragraph = ''p'', url = ''u'' \<rparr> = (''os.getcwd'', ''os getcwd'') \<and>
   rows_of_element \<lparr> module = ''os'', function_name = ''getcwd'', method_signature = ''s'',
        first_paragraph = ''p'', url = ''u'' \<rparr> =
     [[''os.getcwd'', ''A'', [], [], [], [], [], [], ''https://docs.python.org'', [], [],
       ''s<br>p'', ''u''],
      [''os getcwd'', ''R'', ''os.getcwd'', [], [], [], [], [], [], [], [], [], []]]"
proof -
  let ?d = "\<lparr> module = ''os'', function_name = ''getcwd'', method_signature = ''s'',
        first_paragraph = ''p'', url = ''u'' \<rparr>"
  have h: "module ?d \<noteq> [] \<or> function_name ?d \<noteq> []" by simp
  have s: "strip ''os.getcwd'' = ''os.getcwd''" "strip ''os getcwd'' = ''os getcwd''"
    by (simp_all add: strip_def lstrip_def rstrip_def isspace_def)
  from create_file_names [OF h] show ?thesis
    by (simp add: s make_abstract_def)
qed

section \<open>Method blocks\<close>

lemma str_join_two_nonempty:
  assumes "2 \<le> length ps" and "sep \<noteq> []"
  shows "str_join sep ps \<noteq> []"
proof -
  from assms(1) obtain p q rest where "ps = p # q # rest"
    by (cases ps; cases "tl ps") auto
  with assms(2) show ?thesis by simp
qed

lemma parse_for_class_method_id:
  assumes "find ''dt'' None section = Some dt" and "get_attr dt ''id'' = Some ident"
  shows "parse_for_class_method section =
     Inr (let tag_parts = str_split CHR ''.'' ident in
          if ident \<noteq> [] \<and> length tag_parts = 3 then tag_parts
          else if ident \<noteq> [] \<and> length tag_parts > 3 then
            [tag_parts ! 0, tag_parts ! 1, str_join ''.'' (drop 2 tag_parts)]
          else [[], [], []])"
  using assms by (simp add: parse_for_class_method_def Let_def)

lemma str_split_empty: "length (str_split c ident) \<ge> 3 \<Longrightarrow> ident \<noteq> []"
  by (cases ident) auto

text \<open>
  Claim C2, as the code has it. For a method block whose \<open>dt\<close> has the identifier \<open>ident\<close>:
  with exactly 3 parts and a non-empty third part, the record has the first part as module
  and the second and third part, joined by a dot, as function; with more than 3 parts, the
  module is the first part and the function is the second part, a dot, and the remaining
  parts joined by dots; with fewer than 3 parts, and with exactly 3 parts the third of which
  is empty, the block adds no record.
\<close>

theorem parse_for_class_method_parts:
  assumes "find ''dt'' None section = Some dt"
      and "get_attr dt ''id'' = Some ident"
      and "method_data self rest = Inr recs"
  shows "(length (str_split CHR ''.'' ident) = 3 \<and> str_split CHR ''.'' ident ! 2 \<noteq> [] \<longrightarrow>
            (\<exists>r. method_data self (section # rest) = Inr (r # recs) \<and>
                 module r = str_split CHR ''.'' ident ! 0 \<and>
                 function_name r =
                   str_split CHR ''.'' ident ! 1 @ ''.'' @ str_split CHR ''.'' ident ! 2)) \<and>
         (length (str_split CHR ''.'' ident) > 3 \<longrightarrow>
            (\<exists>r. method_data self (section # rest) = Inr (r # recs) \<and>
                 module r = str_split CHR ''.'' ident ! 0 \<and>
                 function_name r =
                   str_split CHR ''.'' ident ! 1 @ ''.'' @
                   str_join ''.'' (drop 2 (str_split CHR ''.'' ident)))) \<and>
         (length (str_split CHR ''.'' ident) < 3 \<longrightarrow>
            method_data self (section # rest) = Inr recs) \<and>
         (length (str_split CHR ''.'' ident) = 3 \<and> str_split CHR ''.'' ident ! 2 = [] \<longrightarrow>
            method_data self (section # rest) = Inr recs)"
proof -
  let ?parts = "str_split CHR ''.'' ident"
  note pm = parse_for_class_method_id [OF assms(1,2)]
  have three: "method_data self (section # rest) =
      Inr (method_element self section (?parts ! 0) (?parts ! 1) (?parts ! 2) # recs)"
    if "length ?parts = 3" "?parts ! 2 \<noteq> []"
    using that str_split_empty [of "CHR ''.''" ident] assms(3) by (simp add: pm Let_def)
  have more: "method_data self (section # rest) =
      Inr (method_element self section (?parts ! 0) (?parts ! 1) (str_join ''.'' (drop 2 ?parts)) # recs)"
    if "length ?parts > 3"
    using that str_split_empty [of "CHR ''.''" ident] assms(3)
      str_join_two_nonempty [of "drop 2 ?parts" "''.''"]
    by (simp add: pm Let_def)
  have fewer: "method_data self (section # rest) = Inr recs" if "length ?parts < 3"
    using that assms(3) by (simp add: pm Let_def)
  have empty3: "method_data self (section # rest) = Inr recs"
    if "length ?parts = 3" "?parts ! 2 = []"
    using that assms(3) by (simp add: pm Let_def)
  show ?thesis
    using three more fewer empty3 by (simp add: method_element_def)
qed

theorem parse_for_class_method_parts_witness:
  "find ''dt'' None
     (Tag ''dl'' [''method''] []
        [Tag ''dt'' [] [(''id'', ''email.message.EmailMessage.is_attachment'')]
           [NavigableString ''is_attachment()'']])
     = Some (Tag ''dt'' [] [(''id'', ''email.message.EmailMessage.is_attachment'')]
           [NavigableString ''is_attachment()'']) \<and>
   get_attr (Tag ''dt'' [] [(''id'', ''email.message.EmailMessage.is_attachment'')]
           [NavigableString ''is_attachment()'']) ''id''
     = Some ''email.message.EmailMessage.is_attachment'' \<and>
   length (str_split CHR ''.'' ''email.message.EmailMessage.is_attachment'') > 3 \<and>
   (\<exists>r. method_data
          \<lparr> function_sections = [], method_sections = [], intro_text = [], title = [],
            download_path = ''download/python-3.5.2-docs-html'',
            file_being_used = ''download/python-3.5.2-docs-html/library/email.message.html'' \<rparr>
          [Tag ''dl'' [''method''] []
             [Tag ''dt'' [] [(''id'', ''email.message.EmailMessage.is_attachment'')]
                [NavigableString ''is_attachment()'']]]
        = Inr [r] \<and>
        module r = ''email'' \<and>
        function_name r = ''message.EmailMessage.is_attachment'')"
proof -
  let ?dt = "Tag ''dt'' [] [(''id'', ''email.message.EmailMessage.is_attachment'')]
           [NavigableString ''is_attachment()'']"
  let ?s = "Tag ''dl'' [''method''] [] [?dt]"
  let ?p = "\<lparr> function_sections = [], method_sections = [], intro_text = [], title = [],
            download_path = ''download/python-3.5.2-docs-html'',
            file_being_used = ''download/python-3.5.2-docs-html/library/email.message.html'' \<rparr>"
  have h1: "find ''dt'' None ?s = Some ?dt" by (simp add: find_def find_all_def)
  have h2: "get_attr ?dt ''id'' = Some ''email.message.EmailMessage.is_attachment''" by simp
  have h3: "method_data ?p [] = Inr []" by simp
  have sp: "str_split CHR ''.'' ''email.message.EmailMessage.is_attachment'' =
      [''email'', ''message'', ''EmailMessage'', ''is_attachment'']" by simp
  from parse_for_class_method_parts [OF h1 h2 h3] h1 h2 show ?thesis
    unfolding sp by simp
qed

text \<open>
  The identifier \<open>a.b.\<close> has exactly 3 parts, the third one empty: the guard
  \<open>if method\<close> of \<open>parse_for_data\<close> drops the block, and the document yields no record.
\<close>

theorem three_parts_without_record:
  "find ''dt'' None
     (Tag ''dl'' [''method''] [] [Tag ''dt'' [] [(''id'', ''a.b.'')] [NavigableString ''b()'']])
     = Some (Tag ''dt'' [] [(''id'', ''a.b.'')] [NavigableString ''b()'']) \<and>
   get_attr (Tag ''dt'' [] [(''id'', ''a.b.'')] [NavigableString ''b()'']) ''id'' = Some ''a.b.'' \<and>
   str_split CHR ''.'' ''a.b.'' = [''a'', ''b'', []] \<and>
   length (str_split CHR ''.'' ''a.b.'') = 3 \<and>
   method_sections (init_parser ''download/python-3.5.2-docs-html/library/a.html''
        (Tag ''[document]'' [] []
           [Tag ''div'' [''section''] []
              [Tag ''dl'' [''method''] []
                 [Tag ''dt'' [] [(''id'', ''a.b.'')] [NavigableString ''b()'']]]])
        ''download/python-3.5.2-docs-html'')
     = [Tag ''dl'' [''method''] [] [Tag ''dt'' [] [(''id'', ''a.b.'')] [NavigableString ''b()'']]] \<and>
   parse_for_data
     (init_parser ''download/python-3.5.2-docs-html/library/a.html''
        (Tag ''[document]'' [] []
           [Tag ''div'' [''section''] []
              [Tag ''dl'' [''method''] []
                 [Tag ''dt'' [] [(''id'', ''a.b.'')] [NavigableString ''b()'']]]])
        ''download/python-3.5.2-docs-html'')
     = Inr []"
  by (simp add: find_def find_all_def init_parser_def parse_for_data_def intro_data_def
      parse_for_class_method_def)

section \<open>Extraction of a whole document\<close>

lemma parse_for_anchor_total:
  assumes "\<forall>a. find ''a'' (Some ''headerlink'') s = Some a \<longrightarrow> get_attr a ''href'' \<noteq> None"
  shows "\<exists>anchor. parse_for_anchor s = Inr anchor"
  using assms
  by (auto simp: parse_for_anchor_def getitem_attr_def split: option.splits)

lemma parse_for_class_method_total:
  assumes "find ''dt'' None s \<noteq> None"
  shows "\<exists>parts. parse_for_class_method s = Inr parts"
  using assms
  by (auto simp: parse_for_class_method_def Let_def split: option.splits)

lemma function_data_total:
  assumes "\<forall>s\<in>set ss. \<forall>a. find ''a'' (Some ''headerlink'') s = Some a \<longrightarrow>
             get_attr a ''href'' \<noteq> None"
  shows "\<exists>fs. function_data p ss = Inr fs \<and>
           list_all2
             (\<lambda>s d. \<exists>anchor. parse_for_anchor s = Inr anchor \<and>
                d = function_element p s (parse_for_module_name s) (parse_for_function_name s) anchor)
             (filter (\<lambda>s. parse_for_module_name s \<noteq> [] \<or> parse_for_function_name s \<noteq> []) ss)
             fs"
  using assms
proof (induction ss)
  case Nil
  show ?case by simp
next
  case (Cons s ss)
  from Cons obtain fs where fs: "function_data p ss = Inr fs"
    "list_all2
       (\<lambda>s d. \<exists>anchor. parse_for_anchor s = Inr anchor \<and>
          d = function_element p s (parse_for_module_name s) (parse_for_function_name s) anchor)
       (filter (\<lambda>s. parse_for_module_name s \<noteq> [] \<or> parse_for_function_name s \<noteq> []) ss) fs"
    by auto
  from Cons.prems obtain anchor where a: "parse_for_anchor s = Inr anchor"
    using parse_for_anchor_total [of s] by auto
  show ?case
    using fs a by (simp add: Let_def)
qed

lemma method_data_total:
  assumes "\<forall>s\<in>set ss. find ''dt'' None s \<noteq> None"
  shows "\<exists>ms. method_data p ss = Inr ms \<and>
           list_all2
             (\<lambda>s d. \<exists>parts. parse_for_class_method s = Inr parts \<and>
                d = method_element p s (parts ! 0) (parts ! 1) (parts ! 2))
             (filter (\<lambda>s. \<exists>parts. parse_for_class_method s = Inr parts \<and> parts ! 2 \<noteq> []) ss)
             ms"
  using assms
proof (induction ss)
  case Nil
  show ?case by simp
next
  case (Cons s ss)
  from Cons obtain ms where ms: "method_data p ss = Inr ms"
    "list_all2
       (\<lambda>s d. \<exists>parts. parse_for_class_method s = Inr parts \<and>
          d = method_element p s (parts ! 0) (parts ! 1) (parts ! 2))
       (filter (\<lambda>s. \<exists>parts. parse_for_class_method s = Inr parts \<and> parts ! 2 \<noteq> []) ss) ms"
    by auto
  from Cons.prems obtain parts where a: "parse_for_class_method s = Inr parts"
    using parse_for_class_method_total [of s] by auto
  show ?case
    using ms a by (simp add: Let_def)
qed

lemma method_kept_iff:
  assumes "find ''dt'' None s = Some dt"
  shows "(\<exists>parts. parse_for_class_method s = Inr parts \<and> parts ! 2 \<noteq> []) \<longleftrightarrow>
         (\<exists>ident. get_attr dt ''id'' = Some ident \<and>
            (length (str_split CHR ''.'' ident) > 3 \<or>
             length (str_split CHR ''.'' ident) = 3 \<and> str_split CHR ''.'' ident ! 2 \<noteq> []))"
proof (cases "get_attr dt ''id''")
  case None
  with assms show ?thesis by (simp add: parse_for_class_method_def)
next
  case (Some ident)
  have ne: "str_join ''.'' (drop 2 (str_split CHR ''.'' ident)) \<noteq> []"
    if "length (str_split CHR ''.'' ident) > 3"
    using that str_join_two_nonempty [of "drop 2 (str_split CHR ''.'' ident)" "''.''"] by simp
  show ?thesis
  proof (cases "ident = []")
    case True
    with assms Some show ?thesis by (simp add: parse_for_class_method_def)
  next
    case False
    with assms Some ne show ?thesis
      by (auto simp: parse_for_class_method_def Let_def)
  qed
qed

lemma create_url_eq:
  "create_url p anchor =
     ''https://docs.python.org/3.5'' @ str_replace (download_path p) [] (file_being_used p) @ anchor"
  by (simp add: create_url_def str_format1_def PYTHON_DOC_BASE_URL_def)

lemma intro_data_fields:
  assumes "d \<in> set (intro_data p)"
  shows "module d \<noteq> [] \<and> function_name d = [] \<and> url d = create_url p []"
  using assms by (auto simp: intro_data_def split: if_splits)

lemma function_data_fields:
  assumes "function_data p ss = Inr fs" and "d \<in> set fs"
  shows "(module d \<noteq> [] \<or> function_name d \<noteq> []) \<and>
         (\<exists>s\<in>set ss. module d = parse_for_module_name s \<and>
            function_name d = parse_for_function_name s \<and>
            (\<exists>anchor. parse_for_anchor s = Inr anchor \<and> url d = create_url p anchor))"
  using assms
proof (induction ss arbitrary: fs)
  case Nil
  then show ?case by simp
next
  case (Cons s ss)
  show ?case
  proof (cases "parse_for_module_name s \<noteq> [] \<or> parse_for_function_name s \<noteq> []")
    case False
    with Cons.prems have "function_data p ss = Inr fs" by (simp add: Let_def)
    from Cons.IH [OF this Cons.prems(2)] show ?thesis by auto
  next
    case True
    with Cons.prems(1) obtain anchor rest where
      a: "parse_for_anchor s = Inr anchor" and r: "function_data p ss = Inr rest"
      and fs: "fs = function_element p s (parse_for_module_name s) (parse_for_function_name s) anchor # rest"
      by (auto simp: Let_def split: sum.splits)
    show ?thesis
    proof (cases "d \<in> set rest")
      case True
      from Cons.IH [OF r True] show ?thesis by auto
    next
      case False
      with Cons.prems(2) fs
      have "d = function_element p s (parse_for_module_name s) (parse_for_function_name s) anchor"
        by simp
      with True a show ?thesis by (auto simp: function_element_def)
    qed
  qed
qed

lemma method_data_fields:
  assumes "method_data p ss = Inr ms" and "d \<in> set ms"
  shows "function_name d \<noteq> [] \<and>
         (\<exists>s\<in>set ss. \<exists>parts. parse_for_class_method s = Inr parts \<and> parts ! 2 \<noteq> [] \<and>
            d = method_element p s (parts ! 0) (parts ! 1) (parts ! 2))"
  using assms
proof (induction ss arbitrary: ms)
  case Nil
  then show ?case by simp
next
  case (Cons s ss)
  from Cons.prems(1) obtain parts where parts: "parse_for_class_method s = Inr parts"
    by (auto split: sum.splits)
  show ?case
  proof (cases "parts ! 2 \<noteq> []")
    case False
    with Cons.prems parts have "method_data p ss = Inr ms" by (simp add: Let_def)
    from Cons.IH [OF this Cons.prems(2)] show ?thesis by auto
  next
    case True
    with Cons.prems(1) parts obtain rest where r: "method_data p ss = Inr rest"
      and ms: "ms = method_element p s (parts ! 0) (parts ! 1) (parts ! 2) # rest"
      by (auto simp: Let_def split: sum.splits)
    show ?thesis
    proof (cases "d \<in> set rest")
      case True
      from Cons.IH [OF r True] show ?thesis by auto
    next
      case False
      with Cons.prems(2) ms have "d = method_element p s (parts ! 0) (parts ! 1) (parts ! 2)"
        by simp
      with parts True show ?thesis by (auto simp: method_element_def)
    qed
  qed
qed

lemma parse_for_data_parts:
  assumes "parse_for_data p = Inr recs"
  shows "\<exists>fs ms. function_data p (function_sections p) = Inr fs \<and>
           method_data p (method_sections p) = Inr ms \<and> recs = intro_data p @ fs @ ms"
  using assms by (auto simp: parse_for_data_def split: sum.splits)

lemma rows_of_element_empty:
  "rows_of_element d = [] \<longleftrightarrow> module d = [] \<and> function_name d = []"
  by (auto simp: rows_of_element_def split: prod.splits)

text \<open>
  Where extraction returns. When every method block has a \<open>dt\<close> element and every header
  permalink found in a function block carries an \<open>href\<close>, extraction returns: the intro
  record, then one record for each function block whose module and function are not both
  empty, then one record for each method block whose method part is not empty. A method
  block with a \<open>dt\<close> has a non-empty method part exactly when its identifier has more than 3
  parts, or exactly 3 parts and a non-empty third one. A missing module name, function name,
  signature, paragraph or anchor gives the empty string, a missing identifier three empty
  parts.
\<close>

theorem parse_for_data_total:
  assumes "\<forall>s\<in>set (method_sections p). find ''dt'' None s \<noteq> None"
      and "\<forall>s\<in>set (function_sections p). \<forall>a. find ''a'' (Some ''headerlink'') s = Some a \<longrightarrow>
             get_attr a ''href'' \<noteq> None"
  shows "(\<exists>fs ms. parse_for_data p = Inr (intro_data p @ fs @ ms) \<and>
           list_all2
             (\<lambda>s d. \<exists>anchor. parse_for_anchor s = Inr anchor \<and>
                d = function_element p s (parse_for_module_name s) (parse_for_function_name s) anchor)
             (filter (\<lambda>s. parse_for_module_name s \<noteq> [] \<or> parse_for_function_name s \<noteq> [])
                (function_sections p))
             fs \<and>
           list_all2
             (\<lambda>s d. \<exists>parts. parse_for_class_method s = Inr parts \<and>
                d = method_element p s (parts ! 0) (parts ! 1) (parts ! 2))
             (filter (\<lambda>s. \<exists>parts. parse_for_class_method s = Inr parts \<and> parts ! 2 \<noteq> [])
                (method_sections p))
             ms) \<and>
         (\<forall>s\<in>set (method_sections p). \<forall>dt. find ''dt'' None s = Some dt \<longrightarrow>
            ((\<exists>parts. parse_for_class_method s = Inr parts \<and> parts ! 2 \<noteq> []) \<longleftrightarrow>
             (\<exists>ident. get_attr dt ''id'' = Some ident \<and>
                (length (str_split CHR ''.'' ident) > 3 \<or>
                 length (str_split CHR ''.'' ident) = 3 \<and> str_split CHR ''.'' ident ! 2 \<noteq> [])))) \<and>
         (find ''code'' (Some ''descclassname'') section = None \<longrightarrow>
            parse_for_module_name section = []) \<and>
         (find ''code'' (Some ''descname'') section = None \<longrightarrow>
            parse_for_function_name section = []) \<and>
         (find ''dt'' None section = None \<longrightarrow> parse_for_method_signature section = []) \<and>
         (find_all ''p'' None section = [] \<longrightarrow> parse_for_first_paragraph section = []) \<and>
         (find ''a'' (Some ''headerlink'') section = None \<longrightarrow> parse_for_anchor section = Inr []) \<and>
         (\<forall>dt. find ''dt'' None section = Some dt \<and> get_attr dt ''id'' = None \<longrightarrow>
            parse_for_class_method section = Inr [[], [], []])"
proof -
  from function_data_total [OF assms(2), of p] obtain fs where
    fs: "function_data p (function_sections p) = Inr fs"
      "list_all2
         (\<lambda>s d. \<exists>anchor. parse_for_anchor s = Inr anchor \<and>
            d = function_element p s (parse_for_module_name s) (parse_for_function_name s) anchor)
         (filter (\<lambda>s. parse_for_module_name s \<noteq> [] \<or> parse_for_function_name s \<noteq> [])
            (function_sections p)) fs"
    by blast
  from method_data_total [OF assms(1), of p] obtain ms where
    ms: "method_data p (method_sections p) = Inr ms"
      "list_all2
         (\<lambda>s d. \<exists>parts. parse_for_class_method s = Inr parts \<and>
            d = method_element p s (parts ! 0) (parts ! 1) (parts ! 2))
         (filter (\<lambda>s. \<exists>parts. parse_for_class_method s = Inr parts \<and> parts ! 2 \<noteq> [])
            (method_sections p)) ms"
    by blast
  have run: "parse_for_data p = Inr (intro_data p @ fs @ ms)"
    by (simp add: parse_for_data_def fs(1) ms(1))
  have kept: "\<forall>s\<in>set (method_sections p). \<forall>dt. find ''dt'' None s = Some dt \<longrightarrow>
            ((\<exists>parts. parse_for_class_method s = Inr parts \<and> parts ! 2 \<noteq> []) \<longleftrightarrow>
             (\<exists>ident. get_attr dt ''id'' = Some ident \<and>
                (length (str_split CHR ''.'' ident) > 3 \<or>
                 length (str_split CHR ''.'' ident) = 3 \<and> str_split CHR ''.'' ident ! 2 \<noteq> [])))"
    using method_kept_iff by blast
  have d1: "find ''code'' (Some ''descclassname'') section = None \<longrightarrow>
            parse_for_module_name section = []"
    by (simp add: parse_for_module_name_def)
  have d2: "find ''code'' (Some ''descname'') section = None \<longrightarrow>
            parse_for_function_name section = []"
    by (simp add: parse_for_function_name_def)
  have d3: "find ''dt'' None section = None \<longrightarrow> parse_for_method_signature section = []"
    by (simp add: parse_for_method_signature_def)
  have d4: "find_all ''p'' None section = [] \<longrightarrow> parse_for_first_paragraph section = []"
    by (simp add: parse_for_first_paragraph_def)
  have d5: "find ''a'' (Some ''headerlink'') section = None \<longrightarrow> parse_for_anchor section = Inr []"
    by (simp add: parse_for_anchor_def)
  have d6: "\<forall>dt. find ''dt'' None section = Some dt \<and> get_attr dt ''id'' = None \<longrightarrow>
            parse_for_class_method section = Inr [[], [], []]"
    by (simp add: parse_for_class_method_def)
  from run fs(2) ms(2) have main: "\<exists>fs ms. parse_for_data p = Inr (intro_data p @ fs @ ms) \<and>
           list_all2
             (\<lambda>s d. \<exists>anchor. parse_for_anchor s = Inr anchor \<and>
                d = function_element p s (parse_for_module_name s) (parse_for_function_name s) anchor)
             (filter (\<lambda>s. parse_for_module_name s \<noteq> [] \<or> parse_for_function_name s \<noteq> [])
                (function_sections p))
             fs \<and>
           list_all2
             (\<lambda>s d. \<exists>parts. parse_for_class_method s = Inr parts \<and>
                d = method_element p s (parts ! 0) (parts ! 1) (parts ! 2))
             (filter (\<lambda>s. \<exists>parts. parse_for_class_method s = Inr parts \<and> parts ! 2 \<noteq> [])
                (method_sections p))
             ms"
    by blast
  show ?thesis
    using main kept d1 d2 d3 d4 d5 d6 by (intro conjI)
qed

theorem parse_for_data_total_witness:
  "(\<exists>fs ms. parse_for_data example_parser = Inr (fs @ ms) \<and> length fs = 1 \<and> length ms = 1) \<and>
   parse_for_data example_parser = Inr example_records"
proof -
  let ?p = example_parser
  have fsec: "function_sections ?p = [example_function_block, example_empty_block]"
    and msec: "method_sections ?p = [example_method_no_id, example_method_block]"
    and intro: "intro_data ?p = []"
    by (simp_all add: example_parser_def example_defs init_parser_def find_def find_all_def
        intro_data_def Let_def)
  have h1: "\<forall>s\<in>set (method_sections ?p). find ''dt'' None s \<noteq> None"
    unfolding msec by (simp add: example_defs find_def find_all_def)
  have h2: "\<forall>s\<in>set (function_sections ?p). \<forall>a. find ''a'' (Some ''headerlink'') s = Some a \<longrightarrow>
             get_attr a ''href'' \<noteq> None"
    unfolding fsec by (simp add: example_defs find_def find_all_def)
  have keep: "filter (\<lambda>s. parse_for_module_name s \<noteq> [] \<or> parse_for_function_name s \<noteq> [])
                [example_function_block, example_empty_block] = [example_function_block]"
    by (simp add: example_defs parse_for_module_name_def parse_for_function_name_def
        find_def find_all_def)
  have keepm: "filter (\<lambda>s. \<exists>parts. parse_for_class_method s = Inr parts \<and> parts ! 2 \<noteq> [])
                [example_method_no_id, example_method_block] = [example_method_block]"
    by (simp add: example_defs parse_for_class_method_def find_def find_all_def)
  from parse_for_data_total [OF h1 h2] obtain fs ms where
    r: "parse_for_data ?p = Inr (intro_data ?p @ fs @ ms)"
    and lf: "length [example_function_block] = length fs"
    and lm: "length [example_method_block] = length ms"
    unfolding fsec msec keep keepm by (blast dest: list_all2_lengthD)
  have first: "\<exists>fs ms. parse_for_data ?p = Inr (fs @ ms) \<and> length fs = 1 \<and> length ms = 1"
    using r lf lm unfolding intro by auto
  have second: "parse_for_data ?p = Inr example_records"
    by code_simp
  from first second show ?thesis by blast
qed

text \<open>
  A header permalink without \<open>href\<close>: \<open>a_tag['href']\<close> raises KeyError, where the other
  lookups of the extractor give the empty string.
\<close>

lemma headerlink_without_href_raises:
  "find ''a'' (Some ''headerlink'')
     (Tag ''dl'' [''function''] []
        [Tag ''code'' [''descname''] [] [NavigableString ''getcwd''],
         Tag ''a'' [''headerlink''] [] []])
     = Some (Tag ''a'' [''headerlink''] [] []) \<and>
   parse_for_data
     (init_parser ''download/python-3.5.2-docs-html/library/a.html''
        (Tag ''[document]'' [] []
           [Tag ''div'' [''section''] []
              [Tag ''dl'' [''function''] []
                 [Tag ''code'' [''descname''] [] [NavigableString ''getcwd''],
                  Tag ''a'' [''headerlink''] [] []]]])
        ''download/python-3.5.2-docs-html'')
     = Inl KeyError"
  by code_simp

text \<open>
  Claim C5 fails on the code. Extraction is not total: for a method block without a \<open>dt\<close>
  element \<open>section.find('dt')\<close> is \<open>None\<close>, \<open>parse_for_class_method\<close> calls \<open>.get('id')\<close> on
  it and raises AttributeError, and extraction of the document raises. The sibling
  \<open>parse_for_method_signature\<close> checks \<open>if dt:\<close> on the same lookup.
\<close>

theorem method_block_without_dt_raises:
  "method_sections
     (init_parser ''download/python-3.5.2-docs-html/library/a.html''
        (Tag ''[document]'' [] []
           [Tag ''div'' [''section''] []
              [Tag ''dl'' [''method''] [] [Tag ''dd'' [] [] [NavigableString ''text'']]]])
        ''download/python-3.5.2-docs-html'')
     = [Tag ''dl'' [''method''] [] [Tag ''dd'' [] [] [NavigableString ''text'']]] \<and>
   find ''dt'' None (Tag ''dl'' [''method''] [] [Tag ''dd'' [] [] [NavigableString ''text'']]) = None \<and>
   parse_for_data
     (init_parser ''download/python-3.5.2-docs-html/library/a.html''
        (Tag ''[document]'' [] []
           [Tag ''div'' [''section''] []
              [Tag ''dl'' [''method''] [] [Tag ''dd'' [] [] [NavigableString ''text'']]]])
        ''download/python-3.5.2-docs-html'')
     = Inl AttributeError"
  by code_simp

text \<open>
  Claim C6, as the code has it. Every record that extraction produces is accepted by the
  writer and has a non-empty module or a non-empty function. The intro record has an empty
  function; a record of a function block has an empty function only when the declared name
  of the block is missing or empty, and its module is then not empty; a record of a method
  block never has an empty function.
\<close>

theorem emitted_records_named:
  assumes "parse_for_data p = Inr recs"
  shows "\<exists>fs ms. function_data p (function_sections p) = Inr fs \<and>
           method_data p (method_sections p) = Inr ms \<and>
           recs = intro_data p @ fs @ ms \<and>
           (\<forall>d\<in>set recs. rows_of_element d \<noteq> [] \<longrightarrow>
              \<not> (module d = [] \<and> function_name d = [])) \<and>
           (\<forall>d\<in>set recs. rows_of_element d \<noteq> []) \<and>
           (\<forall>d\<in>set (intro_data p). function_name d = []) \<and>
           (\<forall>d\<in>set fs. function_name d = [] \<longrightarrow>
              module d \<noteq> [] \<and>
              (\<exists>s\<in>set (function_sections p). parse_for_function_name s = [] \<and>
                 module d = parse_for_module_name s)) \<and>
           (\<forall>d\<in>set ms. function_name d \<noteq> [])"
proof -
  from parse_for_data_parts [OF assms] obtain fs ms where
    fs: "function_data p (function_sections p) = Inr fs"
    and ms: "method_data p (method_sections p) = Inr ms"
    and recs: "recs = intro_data p @ fs @ ms"
    by blast
  have named: "module d \<noteq> [] \<or> function_name d \<noteq> []" if "d \<in> set recs" for d
    using that intro_data_fields [of d p] function_data_fields [OF fs, of d]
      method_data_fields [OF ms, of d] unfolding recs by auto
  have a: "\<forall>d\<in>set recs. rows_of_element d \<noteq> [] \<longrightarrow> \<not> (module d = [] \<and> function_name d = [])"
    by (simp add: rows_of_element_empty)
  have b: "\<forall>d\<in>set recs. rows_of_element d \<noteq> []"
    using named by (auto simp: rows_of_element_empty)
  have c: "\<forall>d\<in>set (intro_data p). function_name d = []"
    using intro_data_fields by blast
  have d: "\<forall>d\<in>set fs. function_name d = [] \<longrightarrow>
              module d \<noteq> [] \<and>
              (\<exists>s\<in>set (function_sections p). parse_for_function_name s = [] \<and>
                 module d = parse_for_module_name s)"
  proof (intro ballI impI)
    fix d assume "d \<in> set fs" and e: "function_name d = []"
    from function_data_fields [OF fs this(1)] e show "module d \<noteq> [] \<and>
              (\<exists>s\<in>set (function_sections p). parse_for_function_name s = [] \<and>
                 module d = parse_for_module_name s)"
      by (metis)
  qed
  have e: "\<forall>d\<in>set ms. function_name d \<noteq> []"
    using method_data_fields [OF ms] by blast
  from fs ms recs a b c d e show ?thesis by blast
qed

theorem emitted_records_named_witness:
  "parse_for_data example_parser = Inr example_records \<and>
   (\<exists>fs ms. function_data example_parser (function_sections example_parser) = Inr fs \<and>
      method_data example_parser (method_sections example_parser) = Inr ms \<and>
      example_records = intro_data example_parser @ fs @ ms \<and>
      (\<forall>d\<in>set example_records. rows_of_element d \<noteq> []) \<and>
      (\<forall>d\<in>set ms. function_name d \<noteq> []))"
proof -
  have run: "parse_for_data example_parser = Inr example_records"
    by code_simp
  from emitted_records_named [OF run] run show ?thesis by blast
qed

text \<open>
  A document without intro record whose one function block has a module name and no
  declared name: the record is written, and its function field is empty.
\<close>

theorem function_record_without_function:
  "intro_data example_module_only_parser = [] \<and>
   method_sections example_module_only_parser = [] \<and>
   function_sections example_module_only_parser = [example_module_only_block] \<and>
   parse_for_function_name example_module_only_block = [] \<and>
   parse_for_data example_module_only_parser = Inr [example_module_only_record] \<and>
   function_name example_module_only_record = [] \<and>
   rows_of_element example_module_only_record =
     [[''os'', ''A'', [], [], [], [], [], [], ''https://docs.python.org'', [], [], [],
       ''https://docs.python.org/3.5/library/os.html'']]"
  by code_simp

text \<open>
  Claim C8. Whatever the download path of the document (the one of python2 or the one of
  python3), the url of every record is \<open>PYTHON_DOC_BASE_URL\<close> formatted with the file path
  without the download path, followed by the anchor of the record: nothing for the intro
  record, the \<open>href\<close> of the header permalink for a function block, \<open>#\<close> and the three parts
  of the identifier for a method block. It starts with \<open>https://docs.python.org/3.5\<close>.
\<close>

theorem record_urls:
  assumes "parse_for_data (init_parser file soup_data path) = Inr recs" and "d \<in> set recs"
  shows "\<exists>anchor.
           (anchor = [] \<or>
            (\<exists>s\<in>set (function_sections (init_parser file soup_data path)).
               parse_for_anchor s = Inr anchor) \<or>
            (\<exists>s\<in>set (method_sections (init_parser file soup_data path)).
               \<exists>parts. parse_for_class_method s = Inr parts \<and>
                 anchor = ''#'' @ str_join ''.'' [parts ! 0, parts ! 1, parts ! 2])) \<and>
           url d = str_format1 PYTHON_DOC_BASE_URL (str_replace path [] file @ anchor) \<and>
           url d = ''https://docs.python.org/3.5'' @ str_replace path [] file @ anchor"
proof -
  let ?p = "init_parser file soup_data path"
  let ?A = "\<lambda>anchor. anchor = [] \<or>
            (\<exists>s\<in>set (function_sections ?p). parse_for_anchor s = Inr anchor) \<or>
            (\<exists>s\<in>set (method_sections ?p).
               \<exists>parts. parse_for_class_method s = Inr parts \<and>
                 anchor = ''#'' @ str_join ''.'' [parts ! 0, parts ! 1, parts ! 2])"
  have dp: "download_path ?p = path" and fb: "file_being_used ?p = file"
    by (simp_all add: init_parser_def Let_def)
  from parse_for_data_parts [OF assms(1)] obtain fs ms where
    fs: "function_data ?p (function_sections ?p) = Inr fs"
    and ms: "method_data ?p (method_sections ?p) = Inr ms"
    and recs: "recs = intro_data ?p @ fs @ ms"
    by blast
  from assms(2) recs consider "d \<in> set (intro_data ?p)" | "d \<in> set fs" | "d \<in> set ms"
    by auto
  then have "\<exists>anchor. ?A anchor \<and> url d = create_url ?p anchor"
  proof cases
    case 1
    from intro_data_fields [OF 1] show ?thesis by blast
  next
    case 2
    from function_data_fields [OF fs 2] show ?thesis by blast
  next
    case 3
    from method_data_fields [OF ms 3] obtain s parts where
      "s \<in> set (method_sections ?p)" "parse_for_class_method s = Inr parts"
      "d = method_element ?p s (parts ! 0) (parts ! 1) (parts ! 2)"
      by blast
    moreover from this(3)
    have "url d = create_url ?p (''#'' @ str_join ''.'' [parts ! 0, parts ! 1, parts ! 2])"
      by (simp add: method_element_def)
    ultimately show ?thesis by blast
  qed
  then obtain anchor where a: "?A anchor" and u: "url d = create_url ?p anchor" by blast
  have "url d = str_format1 PYTHON_DOC_BASE_URL (str_replace path [] file @ anchor)"
    unfolding u by (simp add: create_url_def dp fb)
  moreover have "url d = ''https://docs.python.org/3.5'' @ str_replace path [] file @ anchor"
    unfolding u create_url_eq dp fb ..
  ultimately show ?thesis using a by blast
qed

theorem record_urls_witness:
  "(''python2'', ''download/python-2.7.12-docs-html'') \<in> set DOWNLOADED_HTML_PATHS \<and>
   parse_for_data
     (init_parser ''download/python-2.7.12-docs-html/library/os.html'' example_soup
        ''download/python-2.7.12-docs-html'') = Inr example_records \<and>
   example_records ! 1 \<in> set example_records \<and>
   url (example_records ! 1) = ''https://docs.python.org/3.5/library/os.html#os.path.join'' \<and>
   str_replace ''download/python-2.7.12-docs-html'' []
     ''download/python-2.7.12-docs-html/library/os.html'' = ''/library/os.html'' \<and>
   (\<exists>anchor.
      url (example_records ! 1) =
        str_format1 PYTHON_DOC_BASE_URL
          (str_replace ''download/python-2.7.12-docs-html'' []
             ''download/python-2.7.12-docs-html/library/os.html'' @ anchor) \<and>
      url (example_records ! 1) =
        ''https://docs.python.org/3.5'' @
          str_replace ''download/python-2.7.12-docs-html'' []
             ''download/python-2.7.12-docs-html/library/os.html'' @ anchor)"
proof -
  have v: "(''python2'', ''download/python-2.7.12-docs-html'') \<in> set DOWNLOADED_HTML_PATHS"
    by (simp add: DOWNLOADED_HTML_PATHS_def)
  have run: "parse_for_data
     (init_parser ''download/python-2.7.12-docs-html/library/os.html'' example_soup
        ''download/python-2.7.12-docs-html'') = Inr example_records"
    by code_simp
  have rel: "str_replace ''download/python-2.7.12-docs-html'' []
     ''download/python-2.7.12-docs-html/library/os.html'' = ''/library/os.html''"
    by code_simp
  have m: "example_records ! 1 \<in> set example_records"
    by (simp add: example_records_def)
  have u: "url (example_records ! 1) = ''https://docs.python.org/3.5/library/os.html#os.path.join''"
    by (simp add: example_records_def)
  from record_urls [OF run m] v run rel m u show ?thesis by blast
qed

section \<open>Reconciliation\<close>

subsection \<open>Sorting by name\<close>

lemma sortkey_Some: "r \<noteq> [] \<Longrightarrow> sortkey r = Some (getkey r)"
  by (cases r) (simp_all add: sortkey_def getkey_def)

lemma insort_sortkey:
  assumes "x \<noteq> []" and "[] \<notin> set ys"
  shows "insort_key sortkey x ys = insort_key getkey x ys"
  using assms by (induction ys) (auto simp: sortkey_Some)

lemma sort_key_sortkey:
  assumes "[] \<notin> set xs"
  shows "sort_key sortkey xs = sort_key getkey xs"
  using assms
proof (induction xs)
  case Nil
  show ?case by simp
next
  case (Cons x xs)
  from Cons.prems have x: "x \<noteq> []" and xs: "[] \<notin> set xs" by auto
  from xs have "[] \<notin> set (sort_key getkey xs)" by simp
  from insort_sortkey [OF x this] Cons.IH [OF xs] show ?case by simp
qed

lemma sort_name_rows:
  assumes "[] \<notin> set (drop 1 t)"
  shows "sort_name t = take 1 t @ sort_key getkey (drop 1 t)"
  using assms by (simp add: sort_name_def sort_key_sortkey)

lemma sort_name_sorted:
  assumes "[] \<notin> set (drop 1 t)" and "sorted (map getkey (drop 1 t))"
  shows "sort_name t = t"
  using assms by (simp add: sort_name_rows sort_key_id_if_sorted)

lemma sort_name_result:
  assumes "[] \<notin> set (drop 1 t)"
  shows "[] \<notin> set (drop 1 (sort_name t)) \<and> sorted (map getkey (drop 1 (sort_name t))) \<and>
         take 1 (sort_name t) = take 1 t \<and>
         drop 1 (sort_name t) = sort_key getkey (drop 1 t)"
proof (cases t)
  case Nil
  then show ?thesis by (simp add: sort_name_def)
next
  case (Cons h rows)
  with assms have "sort_name t = h # sort_key getkey rows"
    by (simp add: sort_name_rows)
  with Cons assms show ?thesis by simp
qed

subsection \<open>iterunique\<close>

lemma set_iterunique: "set (iterunique prev b it) \<subseteq> insert prev (set it)"
  by (induction it arbitrary: prev b) (auto simp: Let_def split: if_splits)

lemma iterunique_lower:
  assumes "sorted (map getkey (prev # it))" and "r \<in> set (iterunique prev b it)"
  shows "getkey prev \<le> getkey r"
  using assms set_iterunique [of prev b it] by auto

lemma iterunique_strict:
  assumes "sorted (map getkey (prev # it))"
  shows "sorted_wrt (<) (map getkey (iterunique prev b it))"
  using assms
proof (induction it arbitrary: prev b)
  case Nil
  show ?case by simp
next
  case (Cons cur it)
  from Cons.prems have s: "sorted (map getkey (cur # it))" and le: "getkey prev \<le> getkey cur"
    by simp_all
  note IH = Cons.IH [OF s]
  show ?case
  proof (cases "b \<and> getkey cur \<noteq> getkey prev")
    case False
    then show ?thesis using IH by (auto simp: Let_def)
  next
    case True
    with le have lt: "getkey prev < getkey cur" by (auto simp: less_le)
    have "getkey prev < getkey r" if "r \<in> set (iterunique cur True it)" for r
      using iterunique_lower [OF s that] lt by simp
    with True IH [of True] show ?thesis by (auto simp: Let_def)
  qed
qed

lemma iterunique_id:
  assumes "sorted_wrt (<) (map getkey (prev # it))"
  shows "iterunique prev True it = prev # it"
  using assms
proof (induction it arbitrary: prev)
  case Nil
  show ?case by simp
next
  case (Cons cur it)
  from Cons.prems have "getkey prev < getkey cur" and "sorted_wrt (<) (map getkey (cur # it))"
    by simp_all
  with Cons.IH [of cur] show ?case by (auto simp: Let_def)
qed


lemma iterunique_set:
  assumes "sorted (map getkey (prev # it))"
  shows "set (iterunique prev b it) =
     {r \<in> set (prev # it). filter (\<lambda>x. getkey x = getkey r) (prev # it) = [r] \<and>
        (b \<or> getkey r \<noteq> getkey prev)}"
  using assms
proof (induction it arbitrary: prev b)
  case Nil
  show ?case by auto
next
  case (Cons cur it)
  from Cons.prems have s: "sorted (map getkey (cur # it))" and le: "getkey prev \<le> getkey cur"
    and ge: "\<forall>x\<in>set it. getkey cur \<le> getkey x"
    by simp_all
  note IH = Cons.IH [OF s]
  show ?case
  proof (cases "getkey cur = getkey prev")
    case True
    have "set (iterunique prev b (cur # it)) = set (iterunique cur False it)"
      using True by (simp add: Let_def)
    also have "\<dots> = {r \<in> set (cur # it). filter (\<lambda>x. getkey x = getkey r) (cur # it) = [r] \<and>
        getkey r \<noteq> getkey cur}"
      unfolding IH by simp
    also have "\<dots> = {r \<in> set (prev # cur # it).
        filter (\<lambda>x. getkey x = getkey r) (prev # cur # it) = [r] \<and>
        (b \<or> getkey r \<noteq> getkey prev)}"
      using True by auto
    finally show ?thesis .
  next
    case False
    with le have lt: "getkey prev < getkey cur" by (auto simp: less_le)
    have other: "getkey x \<noteq> getkey prev" if "x \<in> set (cur # it)" for x
      using that lt ge by auto
    have tail: "set (iterunique cur True it) =
        {r \<in> set (cur # it). filter (\<lambda>x. getkey x = getkey r) (cur # it) = [r]}"
      unfolding IH by simp
    have none: "filter (\<lambda>x. getkey x = getkey prev) (cur # it) = []"
      using other by (auto simp: filter_empty_conv)
    have alone: "filter (\<lambda>x. getkey x = getkey prev) (prev # cur # it) = [prev]"
      using none by simp
    have same: "filter (\<lambda>x. getkey x = getkey r) (prev # cur # it) =
        filter (\<lambda>x. getkey x = getkey r) (cur # it)" if "r \<in> set (cur # it)" for r
    proof -
      from other [OF that] have "getkey prev \<noteq> getkey r" by simp
      then show ?thesis by simp
    qed
    have "set (iterunique prev b (cur # it)) =
        (if b then {prev} else {}) \<union> set (iterunique cur True it)"
      using False by (simp add: Let_def)
    also have "\<dots> = {r \<in> set (prev # cur # it).
        filter (\<lambda>x. getkey x = getkey r) (prev # cur # it) = [r] \<and>
        (b \<or> getkey r \<noteq> getkey prev)}" (is "?L = ?R")
    proof (intro set_eqI iffI)
      fix r assume "r \<in> ?L"
      then consider "b" "r = prev" | "r \<in> set (iterunique cur True it)"
        by (auto split: if_splits)
      then show "r \<in> ?R"
      proof cases
        case 1
        with alone show ?thesis by simp
      next
        case 2
        then have r: "r \<in> set (cur # it)"
          and f: "filter (\<lambda>x. getkey x = getkey r) (cur # it) = [r]"
          unfolding tail by simp_all
        from other [OF r] have "getkey r \<noteq> getkey prev" .
        moreover from same [OF r] f
        have "filter (\<lambda>x. getkey x = getkey r) (prev # cur # it) = [r]" by simp
        ultimately show ?thesis using r by simp
      qed
    next
      fix r assume "r \<in> ?R"
      then have mem: "r \<in> set (prev # cur # it)"
        and f: "filter (\<lambda>x. getkey x = getkey r) (prev # cur # it) = [r]"
        and c: "b \<or> getkey r \<noteq> getkey prev"
        by simp_all
      show "r \<in> ?L"
      proof (cases "r \<in> set (cur # it)")
        case True
        from same [OF True] f have "filter (\<lambda>x. getkey x = getkey r) (cur # it) = [r]" by simp
        with True have "r \<in> set (iterunique cur True it)" unfolding tail by simp
        then show ?thesis by simp
      next
        case False
        with mem have "r = prev" by simp
        with c show ?thesis by simp
      qed
    qed
    finally show ?thesis .
  qed
qed

subsection \<open>The deduplication step\<close>

lemma unique_name_sorted:
  assumes "[] \<notin> set (drop 1 s)" and "sorted (map getkey (drop 1 s))"
  shows "unique_name s =
     Inr (take 1 s @ (case drop 1 s of [] \<Rightarrow> [] | prev # it \<Rightarrow> iterunique prev True it))"
  using assms by (simp add: unique_name_def sort_name_sorted)

lemma unique_name_raises:
  assumes "[] \<in> set (drop 1 t)"
  shows "unique_name t = Inl IndexError"
proof -
  have "set (drop 1 (sort_name t)) = set (drop 1 t)"
    by (cases t) (simp_all add: sort_name_def)
  with assms show ?thesis by (simp add: unique_name_def Let_def)
qed

lemma unique_name_result:
  assumes "[] \<notin> set (drop 1 s)" and "sorted (map getkey (drop 1 s))"
      and "unique_name s = Inr u"
  shows "[] \<notin> set (drop 1 u) \<and> sorted_wrt (<) (map getkey (drop 1 u)) \<and>
         set (drop 1 u) \<subseteq> set (drop 1 s) \<and> take 1 u = take 1 s"
proof -
  from unique_name_sorted [OF assms(1,2)] assms(3)
  have u: "u = take 1 s @ (case drop 1 s of [] \<Rightarrow> [] | prev # it \<Rightarrow> iterunique prev True it)"
    by simp
  show ?thesis
  proof (cases s)
    case Nil
    with u show ?thesis by simp
  next
    case (Cons h rows)
    show ?thesis
    proof (cases rows)
      case Nil
      with Cons u show ?thesis by simp
    next
      case (Cons prev it)
      with \<open>s = h # rows\<close> u have u': "u = h # iterunique prev True it" by simp
      from Cons \<open>s = h # rows\<close> assms(2) have srt: "sorted (map getkey (prev # it))" by simp
      from Cons \<open>s = h # rows\<close> assms(1) have ne: "[] \<notin> set (prev # it)" by simp
      have sub: "set (iterunique prev True it) \<subseteq> set (prev # it)"
        using set_iterunique [of prev True it] by simp
      from sub ne have "[] \<notin> set (iterunique prev True it)" by blast
      with u' sub iterunique_strict [OF srt, of True] Cons \<open>s = h # rows\<close>
      show ?thesis by simp
    qed
  qed
qed

lemma unique_name_fixed:
  assumes "[] \<notin> set (drop 1 u)" and "sorted_wrt (<) (map getkey (drop 1 u))"
  shows "unique_name u = Inr u"
proof -
  from assms(2) have srt: "sorted (map getkey (drop 1 u))"
    by (rule strict_sorted_imp_sorted)
  have "take 1 u @ (case drop 1 u of [] \<Rightarrow> [] | prev # it \<Rightarrow> iterunique prev True it) = u"
  proof (cases "drop 1 u")
    case Nil
    then have "take 1 u = u" by (cases u) simp_all
    with Nil show ?thesis by simp
  next
    case (Cons prev it)
    with assms(2) have "iterunique prev True it = prev # it"
      by (simp add: iterunique_id)
    with Cons have "take 1 u @ (case drop 1 u of [] \<Rightarrow> [] | prev # it \<Rightarrow> iterunique prev True it)
        = take 1 u @ drop 1 u" by simp
    then show ?thesis by simp
  qed
  with unique_name_sorted [OF assms(1) srt] show ?thesis by simp
qed

text \<open>
  Claim C9, as the code has it. The deduplication step of \<open>unify\<close> sorts the rows by name
  and then keeps the rows whose name no other row has (petl's \<open>unique\<close>); it is idempotent:
  on a table whose rows all have a field the step returns, and the table it returns is
  left unchanged by the sort and by \<open>unique\<close>. (On a row without fields \<open>unique\<close> raises.)
\<close>

theorem dedup_idempotent:
  assumes "[] \<notin> set (drop 1 t)"
  shows "\<exists>u. unique_name (sort_name t) = Inr u \<and> sort_name u = u \<and> unique_name u = Inr u"
proof -
  from sort_name_result [OF assms] have ne: "[] \<notin> set (drop 1 (sort_name t))"
    and srt: "sorted (map getkey (drop 1 (sort_name t)))" by blast+
  from unique_name_sorted [OF ne srt] obtain u where u: "unique_name (sort_name t) = Inr u"
    by blast
  from unique_name_result [OF ne srt u] have ne': "[] \<notin> set (drop 1 u)"
    and strict: "sorted_wrt (<) (map getkey (drop 1 u))" by blast+
  from strict have "sorted (map getkey (drop 1 u))" by (rule strict_sorted_imp_sorted)
  with ne' have "sort_name u = u" by (rule sort_name_sorted)
  moreover from ne' strict have "unique_name u = Inr u" by (rule unique_name_fixed)
  ultimately show ?thesis using u by blast
qed

theorem dedup_idempotent_witness:
  "[] \<notin> set (drop 1 example_table) \<and>
   sort_name example_table =
     [header, example_row ''os.abc'' ''abstract'', example_row ''os.dup'' ''first'',
      example_row ''os.dup'' ''second'', example_row ''os.sep'' ''separator''] \<and>
   (\<exists>u. unique_name (sort_name example_table) = Inr u \<and> sort_name u = u \<and>
        unique_name u = Inr u)"
proof -
  have h: "[] \<notin> set (drop 1 example_table)"
    by (simp add: example_table_def example_row_def article_row_def)
  have s: "sort_name example_table =
     [header, example_row ''os.abc'' ''abstract'', example_row ''os.dup'' ''first'',
      example_row ''os.dup'' ''second'', example_row ''os.sep'' ''separator'']"
    by code_simp
  from dedup_idempotent [OF h] h s show ?thesis by blast
qed

text \<open>
  The step does not keep the first row of a name that several rows have: it keeps none of
  them.
\<close>

theorem unique_drops_every_duplicate:
  "sort_name example_table =
     [header, example_row ''os.abc'' ''abstract'', example_row ''os.dup'' ''first'',
      example_row ''os.dup'' ''second'', example_row ''os.sep'' ''separator''] \<and>
   unique_name
     [header, example_row ''os.abc'' ''abstract'', example_row ''os.dup'' ''first'',
      example_row ''os.dup'' ''second'', example_row ''os.sep'' ''separator''] =
     Inr [header, example_row ''os.abc'' ''abstract'', example_row ''os.sep'' ''separator''] \<and>
   example_row ''os.dup'' ''first'' \<notin>
     set [header, example_row ''os.abc'' ''abstract'', example_row ''os.sep'' ''separator'']"
  by code_simp

subsection \<open>The dictionary of lookup\<close>

lemma lookup_rows_distinct:
  assumes "\<forall>r\<in>set rows. length r = n \<and> r \<noteq> []" and "distinct (map getkey rows)"
      and "getkey ` set rows \<inter> fst ` set d = {}"
  shows "lookup_rows n d rows = Inr (d @ map (\<lambda>r. (getkey r, [r])) rows)"
  using assms
proof (induction rows arbitrary: d)
  case Nil
  show ?case by simp
next
  case (Cons r rows)
  from Cons.prems(1) have r: "length r = n" "r \<noteq> []"
    and rest: "\<forall>r\<in>set rows. length r = n \<and> r \<noteq> []" by simp_all
  from Cons.prems(3) have "getkey r \<notin> fst ` set d" by auto
  then have "map_of d (getkey r) = None" by (simp add: map_of_eq_None_iff)
  then have add: "lookup_add d (getkey r) r = d @ [(getkey r, [r])]"
    by (simp add: lookup_add_def)
  from r have tk: "take n r = r" by simp
  from Cons.prems(2) have dist: "distinct (map getkey rows)" and new: "getkey r \<notin> getkey ` set rows"
    by simp_all
  from Cons.prems(3) new
  have disj: "getkey ` set rows \<inter> fst ` set (d @ [(getkey r, [r])]) = {}" by auto
  from Cons.IH [OF rest dist disj] show ?case
    using r by (simp add: tk add)
qed

lemma filter_single_mem: "filter P xs = [r] \<Longrightarrow> r \<in> set xs \<and> P r"
proof -
  assume "filter P xs = [r]"
  then have "r \<in> set (filter P xs)" by simp
  then show ?thesis by simp
qed

lemma uniq_rows:
  assumes "sorted (map getkey xs)"
  shows "r \<in> set (case xs of [] \<Rightarrow> [] | prev # it \<Rightarrow> iterunique prev True it) \<longleftrightarrow>
         filter (\<lambda>x. getkey x = getkey r) xs = [r]"
proof (cases xs)
  case Nil
  then show ?thesis by simp
next
  case (Cons prev it)
  with assms have "sorted (map getkey (prev # it))" by simp
  from iterunique_set [OF this, of True] Cons show ?thesis
    by (auto dest: filter_single_mem)
qed

lemma load_table_rows:
  assumes "fromtsv read fs name = Inr t" and "\<forall>r\<in>set (drop 1 t). length r = 13"
  shows "\<exists>u. load_table read fs name = Inr (map (\<lambda>r. (getkey r, [r])) u) \<and>
           distinct (map getkey u) \<and>
           (\<forall>r. r \<in> set u \<longleftrightarrow> filter (\<lambda>x. getkey x = getkey r) (drop 1 t) = [r]) \<and>
           (\<forall>r\<in>set u. length r = 13)"
proof -
  let ?t = "setheader header t"
  define srows where "srows = sort_key getkey (drop 1 t)"
  define u where "u = (case srows of [] \<Rightarrow> [] | prev # it \<Rightarrow> iterunique prev True it)"
  have d1: "drop 1 ?t = drop 1 t" and t1: "take 1 ?t = [header]"
    by (simp_all add: setheader_def)
  have ne: "[] \<notin> set (drop 1 t)"
  proof
    assume "[] \<in> set (drop 1 t)"
    with assms(2) have "length ([] :: row) = 13" by blast
    then show False by simp
  qed
  then have ne_t: "[] \<notin> set (drop 1 ?t)" unfolding d1 .
  have s: "sort_name ?t = header # srows"
    unfolding sort_name_rows [OF ne_t] d1 t1 srows_def by simp
  have set_s: "set srows = set (drop 1 t)" by (simp add: srows_def)
  have ne_s: "[] \<notin> set (drop 1 (header # srows))" using ne set_s by simp
  have srt0: "sorted (map getkey srows)" by (simp add: srows_def)
  then have srt: "sorted (map getkey (drop 1 (header # srows)))" by simp
  from unique_name_sorted [OF ne_s srt]
  have un: "unique_name (header # srows) = Inr (header # u)" by (simp add: u_def)
  have mem: "r \<in> set u \<longleftrightarrow> filter (\<lambda>x. getkey x = getkey r) (drop 1 t) = [r]" for r
  proof -
    from uniq_rows [OF srt0, of r]
    have "r \<in> set u \<longleftrightarrow> filter (\<lambda>x. getkey x = getkey r) srows = [r]"
      unfolding u_def .
    then show ?thesis by (simp add: srows_def sort_key_stable)
  qed
  have len: "\<forall>r\<in>set u. length r = 13"
  proof
    fix r assume "r \<in> set u"
    then have "filter (\<lambda>x. getkey x = getkey r) (drop 1 t) = [r]"
      by (rule iffD1 [OF mem])
    then have "r \<in> set (drop 1 t)" by (blast dest: filter_single_mem)
    with assms(2) show "length r = 13" by blast
  qed
  from unique_name_result [OF ne_s srt un]
  have "sorted_wrt (<) (map getkey u)" by simp
  then have dist: "distinct (map getkey u)" by (simp add: strict_sorted_iff)
  have "lookup_rows 13 [] u = Inr ([] @ map (\<lambda>r. (getkey r, [r])) u)"
  proof (rule lookup_rows_distinct)
    show "\<forall>r\<in>set u. length r = 13 \<and> r \<noteq> []"
    proof
      fix r assume "r \<in> set u"
      with len have "length r = 13" by blast
      then show "length r = 13 \<and> r \<noteq> []" by auto
    qed
    show "distinct (map getkey u)" by (rule dist)
    show "getkey ` set u \<inter> fst ` set [] = {}" by simp
  qed
  moreover have "length header = 13" by (simp add: header_def)
  ultimately have "lookup_name (header # u) = Inr (map (\<lambda>r. (getkey r, [r])) u)"
    by (simp add: lookup_name_def)
  then have "load_table read fs name = Inr (map (\<lambda>r. (getkey r, [r])) u)"
    by (simp add: load_table_def assms(1) s un)
  with dist mem len show ?thesis by blast
qed

subsection \<open>The loop of unify\<close>

lemma first_abstract_ok:
  assumes "v \<noteq> []" and "length (hd v) = 13"
  shows "first_abstract v = Inr (hd v ! 11)" and "getitem v 0 = Inr (hd v)"
  using assms by (simp_all add: first_abstract_def getitem_def hd_conv_nth)

lemma unify_loop_result:
  assumes "\<forall>(k, v)\<in>set items. v \<noteq> [] \<and> length (hd v) = 13"
      and "\<forall>(k, v)\<in>set table2. v \<noteq> [] \<and> length (hd v) = 13"
  shows "unify_loop table2 items (new, differ, nf) =
     Inr (new @ map (\<lambda>(k, v). hd v)
                  (filter (\<lambda>(k, v). \<exists>v2. map_of table2 k = Some v2 \<and> hd v ! 11 \<noteq> hd v2 ! 11) items),
          differ + length
                  (filter (\<lambda>(k, v). \<exists>v2. map_of table2 k = Some v2 \<and> hd v ! 11 \<noteq> hd v2 ! 11) items),
          nf + length
                  (filter (\<lambda>(k, v). \<not> (\<exists>v2. map_of table2 k = Some v2 \<and> hd v ! 11 \<noteq> hd v2 ! 11)) items))"
  using assms(1)
proof (induction items arbitrary: new differ nf)
  case Nil
  show ?case by simp
next
  case (Cons kv items)
  obtain k v where kv: "kv = (k, v)" by (cases kv)
  from Cons.prems kv have v: "v \<noteq> []" "length (hd v) = 13"
    and rest: "\<forall>(k, v)\<in>set items. v \<noteq> [] \<and> length (hd v) = 13"
    by auto
  note IH = Cons.IH [OF rest]
  show ?case
  proof (cases "map_of table2 k")
    case None
    then show ?thesis unfolding kv by (simp add: IH)
  next
    case (Some v2)
    then have "(k, v2) \<in> set table2" by (rule map_of_SomeD)
    with assms(2) have v2: "v2 \<noteq> []" "length (hd v2) = 13" by auto
    show ?thesis
      unfolding kv
      by (simp add: Some first_abstract_ok [OF v] first_abstract_ok [OF v2] IH)
  qed
qed


lemma map_of_singletons:
  assumes "distinct (map getkey u)"
  shows "map_of (map (\<lambda>r. (getkey r, [r])) u) k = Some v \<longleftrightarrow> (\<exists>r\<in>set u. getkey r = k \<and> v = [r])"
proof -
  have "map fst (map (\<lambda>r. (getkey r, [r])) u) = map getkey u" by (simp add: comp_def)
  with assms have "distinct (map fst (map (\<lambda>r. (getkey r, [r])) u))" by (simp only:)
  then have "map_of (map (\<lambda>r. (getkey r, [r])) u) k = Some v \<longleftrightarrow>
      (k, v) \<in> set (map (\<lambda>r. (getkey r, [r])) u)"
    by (rule map_of_eq_Some_iff)
  then show ?thesis by auto
qed

lemma unify_rows:
  assumes "fromtsv read fs ''output_py2.txt'' = Inr t2"
      and "fromtsv read fs ''output.txt'' = Inr t3"
      and "\<forall>r\<in>set (drop 1 t2) \<union> set (drop 1 t3). length r = 13"
  shows "\<exists>new_table2 differ nf.
           unify read fs =
             Inr (fs(''output_py2.txt'' \<mapsto> concat (map tsv_line new_table2)), differ, nf) \<and>
           distinct (map getkey new_table2) \<and>
           differ = length new_table2 \<and>
           (\<forall>r. r \<in> set new_table2 \<longleftrightarrow>
              filter (\<lambda>x. getkey x = getkey r) (drop 1 t3) = [r] \<and>
              (\<exists>r2. filter (\<lambda>x. getkey x = getkey r) (drop 1 t2) = [r2] \<and> r ! 11 \<noteq> r2 ! 11))"
proof -
  from assms(3) have l2: "\<forall>r\<in>set (drop 1 t2). length r = 13"
    and l3: "\<forall>r\<in>set (drop 1 t3). length r = 13" by auto
  from load_table_rows [OF assms(1) l2] obtain u2 where
    t2: "load_table read fs ''output_py2.txt'' = Inr (map (\<lambda>r. (getkey r, [r])) u2)"
    and d2: "distinct (map getkey u2)"
    and m2: "\<And>r. r \<in> set u2 \<longleftrightarrow> filter (\<lambda>x. getkey x = getkey r) (drop 1 t2) = [r]"
    and n2: "\<forall>r\<in>set u2. length r = 13"
    by blast
  from load_table_rows [OF assms(2) l3] obtain u3 where
    t3: "load_table read fs ''output.txt'' = Inr (map (\<lambda>r. (getkey r, [r])) u3)"
    and d3: "distinct (map getkey u3)"
    and m3: "\<And>r. r \<in> set u3 \<longleftrightarrow> filter (\<lambda>x. getkey x = getkey r) (drop 1 t3) = [r]"
    and n3: "\<forall>r\<in>set u3. length r = 13"
    by blast
  define table2 where "table2 = map (\<lambda>r. (getkey r, [r])) u2"
  define table3 where "table3 = map (\<lambda>r. (getkey r, [r])) u3"
  define keep where "keep = (\<lambda>(k :: string, v :: row list).
      \<exists>v2. map_of table2 k = Some v2 \<and> hd v ! 11 \<noteq> hd v2 ! 11)"
  define new where "new = filter (\<lambda>r. \<exists>r2\<in>set u2. getkey r2 = getkey r \<and> r ! 11 \<noteq> r2 ! 11) u3"
  have w2: "\<forall>(k, v)\<in>set table2. v \<noteq> [] \<and> length (hd v) = 13"
    using n2 by (auto simp: table2_def)
  have w3: "\<forall>(k, v)\<in>set table3. v \<noteq> [] \<and> length (hd v) = 13"
    using n3 by (auto simp: table3_def)
  have keep_row: "keep (getkey r, [r]) \<longleftrightarrow> (\<exists>r2\<in>set u2. getkey r2 = getkey r \<and> r ! 11 \<noteq> r2 ! 11)"
    for r
    unfolding keep_def table2_def by (auto simp: map_of_singletons [OF d2])
  have kept: "filter keep table3 = map (\<lambda>r. (getkey r, [r])) new"
    unfolding table3_def new_def by (simp add: filter_map comp_def keep_row)
  have rows: "map (\<lambda>(k, v). hd v) (filter keep table3) = new"
    unfolding kept by (simp add: comp_def)
  have len: "length (filter keep table3) = length new"
    unfolding kept by simp
  have loop: "unify_loop table2 table3 ([], 0, 0) =
      Inr (new, length new, length (filter (\<lambda>kv. \<not> keep kv) table3))"
    using unify_loop_result [OF w3 w2, of "[]" 0 0] rows len
    by (simp add: keep_def case_prod_unfold)
  have run: "unify read fs =
      Inr (fs(''output_py2.txt'' \<mapsto> concat (map tsv_line new)), length new,
           length (filter (\<lambda>kv. \<not> keep kv) table3))"
  proof -
    have "unify read fs =
        (case unify_loop table2 table3 ([], 0, 0) of
           Inl e \<Rightarrow> Inl e
         | Inr (new_table2, differ, nf) \<Rightarrow>
             Inr (fs(''output_py2.txt'' \<mapsto> concat (map tsv_line new_table2)), differ, nf))"
      by (simp add: unify_def t2 t3 table2_def table3_def)
    then show ?thesis unfolding loop by simp
  qed
  have dist: "distinct (map getkey new)"
    unfolding new_def using d3 by (rule distinct_map_filter)
  have mem: "r \<in> set new \<longleftrightarrow>
      filter (\<lambda>x. getkey x = getkey r) (drop 1 t3) = [r] \<and>
      (\<exists>r2. filter (\<lambda>x. getkey x = getkey r) (drop 1 t2) = [r2] \<and> r ! 11 \<noteq> r2 ! 11)" for r
  proof
    assume "r \<in> set new"
    then obtain r2 where r3: "r \<in> set u3" and r2: "r2 \<in> set u2" and k: "getkey r2 = getkey r"
      and ne: "r ! 11 \<noteq> r2 ! 11"
      by (auto simp: new_def)
    from r2 have "filter (\<lambda>x. getkey x = getkey r2) (drop 1 t2) = [r2]" by (simp add: m2)
    with k have "filter (\<lambda>x. getkey x = getkey r) (drop 1 t2) = [r2]" by simp
    moreover from r3 have "filter (\<lambda>x. getkey x = getkey r) (drop 1 t3) = [r]" by (simp add: m3)
    ultimately show "filter (\<lambda>x. getkey x = getkey r) (drop 1 t3) = [r] \<and>
      (\<exists>r2. filter (\<lambda>x. getkey x = getkey r) (drop 1 t2) = [r2] \<and> r ! 11 \<noteq> r2 ! 11)"
      using ne by blast
  next
    assume "filter (\<lambda>x. getkey x = getkey r) (drop 1 t3) = [r] \<and>
      (\<exists>r2. filter (\<lambda>x. getkey x = getkey r) (drop 1 t2) = [r2] \<and> r ! 11 \<noteq> r2 ! 11)"
    then obtain r2 where f3: "filter (\<lambda>x. getkey x = getkey r) (drop 1 t3) = [r]"
      and f2: "filter (\<lambda>x. getkey x = getkey r) (drop 1 t2) = [r2]" and ne: "r ! 11 \<noteq> r2 ! 11"
      by blast
    from f3 have r3: "r \<in> set u3" by (simp add: m3)
    from filter_single_mem [OF f2] have k: "getkey r2 = getkey r" by simp
    with f2 have "filter (\<lambda>x. getkey x = getkey r2) (drop 1 t2) = [r2]" by simp
    then have "r2 \<in> set u2" by (simp add: m2)
    with r3 k ne show "r \<in> set new" by (auto simp: new_def)
  qed
  from run dist mem show ?thesis by blast
qed

lemma filter_without_first:
  assumes "k \<notin> getkey ` set (take 1 t)"
  shows "filter (\<lambda>r. getkey r = k) t = filter (\<lambda>r. getkey r = k) (drop 1 t)"
proof (cases t)
  case Nil
  then show ?thesis by simp
next
  case (Cons h rows)
  with assms have "getkey h \<noteq> k" by auto
  with Cons show ?thesis by simp
qed

text \<open>
  Claim C4, as the code has it. Let the reader return the tables \<open>t2\<close> and \<open>t3\<close> for the
  two files, every row with 13 fields. Then \<open>unify\<close> returns, and the file
  \<open>output_py2.txt\<close> then holds the lines of \<open>new_table2\<close> and nothing else. For a name that
  is not the name of the first row of either table, \<open>new_table2\<close> has a row of that name if
  and only if exactly one row of each table has the name and the abstracts (field 11) of
  these two rows differ. Nothing is said about the name of a first row, which
  \<open>setheader\<close> replaces.
\<close>

theorem unify_names:
  assumes "fromtsv read fs ''output_py2.txt'' = Inr t2"
      and "fromtsv read fs ''output.txt'' = Inr t3"
      and "\<forall>r\<in>set t2 \<union> set t3. length r = 13"
  shows "\<exists>new_table2 differ nf.
           unify read fs =
             Inr (fs(''output_py2.txt'' \<mapsto> concat (map tsv_line new_table2)), differ, nf) \<and>
           (\<forall>k. k \<notin> getkey ` set (take 1 t2) \<and> k \<notin> getkey ` set (take 1 t3) \<longrightarrow>
              ((\<exists>r\<in>set new_table2. getkey r = k) \<longleftrightarrow>
               (\<exists>r2 r3. filter (\<lambda>r. getkey r = k) t2 = [r2] \<and>
                  filter (\<lambda>r. getkey r = k) t3 = [r3] \<and> r3 ! 11 \<noteq> r2 ! 11)))"
proof -
  have len: "\<forall>r\<in>set (drop 1 t2) \<union> set (drop 1 t3). length r = 13"
    using assms(3) by (auto dest: in_set_dropD)
  from unify_rows [OF assms(1,2) len] obtain new_table2 differ nf where
    run: "unify read fs =
       Inr (fs(''output_py2.txt'' \<mapsto> concat (map tsv_line new_table2)), differ, nf)"
    and mem: "\<And>r. r \<in> set new_table2 \<longleftrightarrow>
       filter (\<lambda>x. getkey x = getkey r) (drop 1 t3) = [r] \<and>
       (\<exists>r2. filter (\<lambda>x. getkey x = getkey r) (drop 1 t2) = [r2] \<and> r ! 11 \<noteq> r2 ! 11)"
    by blast
  have "(\<exists>r\<in>set new_table2. getkey r = k) \<longleftrightarrow>
        (\<exists>r2 r3. filter (\<lambda>r. getkey r = k) t2 = [r2] \<and>
           filter (\<lambda>r. getkey r = k) t3 = [r3] \<and> r3 ! 11 \<noteq> r2 ! 11)"
    if k2: "k \<notin> getkey ` set (take 1 t2)" and k3: "k \<notin> getkey ` set (take 1 t3)" for k
  proof -
    note f2 = filter_without_first [OF k2] and f3 = filter_without_first [OF k3]
    show ?thesis
    proof
      assume "\<exists>r\<in>set new_table2. getkey r = k"
      then obtain r where r: "r \<in> set new_table2" and k: "getkey r = k" by blast
      from r obtain r2 where "filter (\<lambda>x. getkey x = getkey r) (drop 1 t3) = [r]"
        and "filter (\<lambda>x. getkey x = getkey r) (drop 1 t2) = [r2]" and "r ! 11 \<noteq> r2 ! 11"
        unfolding mem by blast
      then show "\<exists>r2 r3. filter (\<lambda>r. getkey r = k) t2 = [r2] \<and>
           filter (\<lambda>r. getkey r = k) t3 = [r3] \<and> r3 ! 11 \<noteq> r2 ! 11"
        unfolding f2 f3 k by blast
    next
      assume "\<exists>r2 r3. filter (\<lambda>r. getkey r = k) t2 = [r2] \<and>
           filter (\<lambda>r. getkey r = k) t3 = [r3] \<and> r3 ! 11 \<noteq> r2 ! 11"
      then obtain r2 r3 where a2: "filter (\<lambda>r. getkey r = k) (drop 1 t2) = [r2]"
        and a3: "filter (\<lambda>r. getkey r = k) (drop 1 t3) = [r3]" and ne: "r3 ! 11 \<noteq> r2 ! 11"
        unfolding f2 f3 by blast
      from filter_single_mem [OF a3] have k: "getkey r3 = k" by simp
      from a2 a3 ne have "r3 \<in> set new_table2" unfolding mem k by blast
      with k show "\<exists>r\<in>set new_table2. getkey r = k" by blast
    qed
  qed
  with run show ?thesis by blast
qed

lemma read_example_files:
  "fromtsv read_plain_tsv example_files ''output_py2.txt'' = Inr example_older_rows"
  "fromtsv read_plain_tsv example_files ''output.txt'' = Inr example_newer_rows"
  by code_simp+

lemma unify_example_files:
  "unify read_plain_tsv example_files =
     Inr (example_files(''output_py2.txt'' \<mapsto> tsv_line (example_row ''os.getcwd'' ''B'')), 1, 2)"
proof -
  have t2: "load_table read_plain_tsv example_files ''output_py2.txt'' =
     Inr [(''os.getcwd'', [example_row ''os.getcwd'' ''A'']),
          (''os.getpid'', [example_row ''os.getpid'' ''same'']),
          (''os.old'', [example_row ''os.old'' ''older only''])]"
    by code_simp
  have t3: "load_table read_plain_tsv example_files ''output.txt'' =
     Inr [(''os.getcwd'', [example_row ''os.getcwd'' ''B'']),
          (''os.getpid'', [example_row ''os.getpid'' ''same'']),
          (''os.new'', [example_row ''os.new'' ''newer only''])]"
    by code_simp
  have loop: "unify_loop
     [(''os.getcwd'', [example_row ''os.getcwd'' ''A'']),
      (''os.getpid'', [example_row ''os.getpid'' ''same'']),
      (''os.old'', [example_row ''os.old'' ''older only''])]
     [(''os.getcwd'', [example_row ''os.getcwd'' ''B'']),
      (''os.getpid'', [example_row ''os.getpid'' ''same'']),
      (''os.new'', [example_row ''os.new'' ''newer only''])]
     ([], 0, 0) = Inr ([example_row ''os.getcwd'' ''B''], 1, 2)"
    by code_simp
  show ?thesis
    by (simp add: unify_def t2 t3 loop del: unify_loop.simps)
qed

lemma example_row_plain:
  assumes "CHR 0x22 \<notin> set n" "CHR 0x22 \<notin> set a" "CHR 0x0D \<notin> set n" "CHR 0x0D \<notin> set a"
  shows "CHR 0x22 \<notin> set (tsv_line (example_row n a)) \<and> CHR 0x0D \<notin> set (tsv_line (example_row n a))"
  using assms by (simp add: tsv_line_def example_row_def article_row_def)

lemma example_files_plain:
  "CHR 0x22 \<notin> set (concat (map tsv_line (example_older_rows @ example_newer_rows)))"
  "CHR 0x0D \<notin> set (concat (map tsv_line (example_older_rows @ example_newer_rows)))"
  by (simp_all add: example_older_rows_def example_newer_rows_def example_row_plain)

lemma example_dup_files_plain:
  "CHR 0x22 \<notin> set (concat (map tsv_line (example_dup_older_rows @ example_dup_newer_rows)))"
  "CHR 0x0D \<notin> set (concat (map tsv_line (example_dup_older_rows @ example_dup_newer_rows)))"
  by (simp_all add: example_dup_older_rows_def example_dup_newer_rows_def example_row_plain)

theorem unify_names_witness:
  "fromtsv read_plain_tsv example_files ''output_py2.txt'' = Inr example_older_rows \<and>
   fromtsv read_plain_tsv example_files ''output.txt'' = Inr example_newer_rows \<and>
   (\<exists>new_table2 differ nf.
      unify read_plain_tsv example_files =
        Inr (example_files(''output_py2.txt'' \<mapsto> concat (map tsv_line new_table2)), differ, nf) \<and>
      (\<forall>k. k \<notin> getkey ` set (take 1 example_older_rows) \<and>
           k \<notin> getkey ` set (take 1 example_newer_rows) \<longrightarrow>
           ((\<exists>r\<in>set new_table2. getkey r = k) \<longleftrightarrow>
            (\<exists>r2 r3. filter (\<lambda>r. getkey r = k) example_older_rows = [r2] \<and>
               filter (\<lambda>r. getkey r = k) example_newer_rows = [r3] \<and> r3 ! 11 \<noteq> r2 ! 11)))) \<and>
   unify read_plain_tsv example_files =
     Inr (example_files(''output_py2.txt'' \<mapsto> tsv_line (example_row ''os.getcwd'' ''B'')), 1, 2)"
proof -
  have len: "\<forall>r\<in>set example_older_rows \<union> set example_newer_rows. length r = 13"
    by (simp add: example_older_rows_def example_newer_rows_def example_row_def article_row_def)
  from unify_names [OF read_example_files len] read_example_files unify_example_files
  show ?thesis by blast
qed

text \<open>
  The name \<open>os.dup\<close> is on two rows of the older file, whose abstracts both differ from the
  abstract of its row in the newer file: \<open>unique\<close> drops the two rows, the name is no key
  of the older table, and the revised older file is empty.
\<close>

theorem duplicated_name_dropped:
  "fromtsv read_plain_tsv example_dup_files ''output_py2.txt'' =
     Inr [example_row ''abc'' ''first line'', example_row ''os.dup'' ''A1'',
          example_row ''os.dup'' ''A2''] \<and>
   fromtsv read_plain_tsv example_dup_files ''output.txt'' =
     Inr [example_row ''abc'' ''first line'', example_row ''os.dup'' ''B''] \<and>
   example_row ''os.dup'' ''A1'' ! 11 = ''A1'' \<and>
   example_row ''os.dup'' ''A2'' ! 11 = ''A2'' \<and>
   example_row ''os.dup'' ''B'' ! 11 = ''B'' \<and>
   CHR 0x22 \<notin> set (concat (map tsv_line (example_dup_older_rows @ example_dup_newer_rows))) \<and>
   CHR 0x0D \<notin> set (concat (map tsv_line (example_dup_older_rows @ example_dup_newer_rows))) \<and>
   unify read_plain_tsv example_dup_files = Inr (example_dup_files(''output_py2.txt'' \<mapsto> []), 0, 1)"
proof -
  have r2: "fromtsv read_plain_tsv example_dup_files ''output_py2.txt'' =
     Inr [example_row ''abc'' ''first line'', example_row ''os.dup'' ''A1'',
          example_row ''os.dup'' ''A2'']"
    and r3: "fromtsv read_plain_tsv example_dup_files ''output.txt'' =
     Inr [example_row ''abc'' ''first line'', example_row ''os.dup'' ''B'']"
    by code_simp+
  have t2: "load_table read_plain_tsv example_dup_files ''output_py2.txt'' = Inr []"
    by code_simp
  have t3: "load_table read_plain_tsv example_dup_files ''output.txt'' =
     Inr [(''os.dup'', [example_row ''os.dup'' ''B''])]"
    by code_simp
  have run: "unify read_plain_tsv example_dup_files =
     Inr (example_dup_files(''output_py2.txt'' \<mapsto> []), 0, 1)"
    by (simp add: unify_def t2 t3)
  have a: "example_row ''os.dup'' ''A1'' ! 11 = ''A1''" "example_row ''os.dup'' ''A2'' ! 11 = ''A2''"
    "example_row ''os.dup'' ''B'' ! 11 = ''B''"
    by (simp_all add: example_row_def article_row_def)
  from r2 r3 a example_dup_files_plain run show ?thesis by blast
qed

text \<open>
  Claim C1 fails on the code. The name \<open>os.getcwd\<close> is in both deduplicated tables, with
  abstract \<open>A\<close> in the older one and \<open>B\<close> in the newer one; \<open>unify\<close> appends \<open>v[0]\<close>, the
  row of the newer table, and the revised older file holds the row with abstract \<open>B\<close>
  (lemma \<open>unify_rows\<close>: every row of the revised file is a row of the newer table). The
  example files hold no double quote and no carriage return.
\<close>

theorem unify_keeps_newer_row:
  "fromtsv read_plain_tsv example_files ''output_py2.txt'' = Inr example_older_rows \<and>
   fromtsv read_plain_tsv example_files ''output.txt'' = Inr example_newer_rows \<and>
   example_older_rows ! 1 = example_row ''os.getcwd'' ''A'' \<and>
   example_newer_rows ! 1 = example_row ''os.getcwd'' ''B'' \<and>
   example_row ''os.getcwd'' ''A'' ! 11 = ''A'' \<and>
   example_row ''os.getcwd'' ''B'' ! 11 = ''B'' \<and>
   CHR 0x22 \<notin> set (concat (map tsv_line (example_older_rows @ example_newer_rows))) \<and>
   CHR 0x0D \<notin> set (concat (map tsv_line (example_older_rows @ example_newer_rows))) \<and>
   unify read_plain_tsv example_files =
     Inr (example_files(''output_py2.txt'' \<mapsto> tsv_line (example_row ''os.getcwd'' ''B'')), 1, 2)"
proof -
  have rows: "example_older_rows ! 1 = example_row ''os.getcwd'' ''A''"
    "example_newer_rows ! 1 = example_row ''os.getcwd'' ''B''"
    by (simp_all add: example_older_rows_def example_newer_rows_def)
  have abstracts: "example_row ''os.getcwd'' ''A'' ! 11 = ''A''"
    "example_row ''os.getcwd'' ''B'' ! 11 = ''B''"
    by (simp_all add: example_row_def article_row_def)
  from read_example_files rows abstracts example_files_plain unify_example_files
  show ?thesis by blast
qed

end
